theory Spec2Isabelle
  imports Main "HOL-Library.Char_ord" "HOL-Library.List_Lexorder"
begin

section \<open>Conventions of the embedding\<close>

text \<open>
  The development follows the three modules of the indexing and retrieval core:
  \<^verbatim>\<open>tools/embeddings.py\<close>, \<^verbatim>\<open>tools/milvus_tools.py\<close> and
  \<^verbatim>\<open>utils/preprocess_attachments.py\<close>, with \<^verbatim>\<open>utils/get_attachments_metadata.py\<close>.

  \<^item> File names, collection names and messages are \<open>string\<close>s, one \<open>char\<close> per code
    point. The contents of text files and the query texts are lists of Unicode code points
    (\<open>utext\<close>), so that the slice \<^verbatim>\<open>text[:500]\<close> is \<open>take 500\<close>.
  \<^item> An embedding vector is a list over an abstract component type \<open>'a\<close>; the casts
    \<^verbatim>\<open>astype(np.float32)\<close> and \<^verbatim>\<open>tolist()\<close> change the representation only and
    are not modelled. The tensors handed to a model are of an abstract type \<open>'x\<close>.
  \<^item> Every call that can raise returns \<open>exception + 'r\<close>, with \<open>Inl\<close> the exception raised.
\<close>

type_synonym utext = "nat list"

datatype exception =
    MilvusException string int string
  | ExifToolExecuteError string
  | AttributeError string
  | TypeError string
  | IndexError string
  | Exception string

text \<open>
  \<open>MilvusException s c m\<close> carries the rendering \<^verbatim>\<open>str(e)\<close> and the attributes
  \<^verbatim>\<open>e.code\<close> and \<^verbatim>\<open>e.message\<close>. The other exceptions carry \<^verbatim>\<open>str(e)\<close>;
  \<open>Exception\<close> stands for any other subclass of Python's \<^verbatim>\<open>Exception\<close>.
\<close>

fun str_exc :: "exception \<Rightarrow> string" where
  "str_exc (MilvusException s c m) = s"
| "str_exc (ExifToolExecuteError s) = s"
| "str_exc (AttributeError s) = s"
| "str_exc (TypeError s) = s"
| "str_exc (IndexError s) = s"
| "str_exc (Exception s) = s"

text \<open>The decimal rendering of an integer, as an f-string prints it.\<close>

definition digit_char :: "nat \<Rightarrow> char" where
  "digit_char d = char_of (48 + d)"

fun str_nat :: "nat \<Rightarrow> string" where
  "str_nat n = (if n < 10 then [digit_char n] else str_nat (n div 10) @ [digit_char (n mod 10)])"

definition str_int :: "int \<Rightarrow> string" where
  "str_int i = (if i < 0 then CHR ''-'' # str_nat (nat (- i)) else str_nat (nat i))"

subsection \<open>String methods\<close>

text \<open>\<^verbatim>\<open>str.lower\<close>, \<^verbatim>\<open>str.strip\<close> and \<^verbatim>\<open>a in b\<close> on code points below 256.\<close>

definition lower_char :: "char \<Rightarrow> char" where
  "lower_char c =
     (let n = (of_char c :: nat)
      in if (65 \<le> n \<and> n \<le> 90) \<or> (192 \<le> n \<and> n \<le> 222 \<and> n \<noteq> 215)
         then char_of (n + 32) else c)"

definition lower :: "string \<Rightarrow> string" where
  "lower s = map lower_char s"

definition isspace :: "char \<Rightarrow> bool" where
  "isspace c =
     (let n = (of_char c :: nat)
      in (9 \<le> n \<and> n \<le> 13) \<or> (28 \<le> n \<and> n \<le> 32) \<or> n = 133 \<or> n = 160)"

definition strip :: "string \<Rightarrow> string" where
  "strip s = rev (dropWhile isspace (rev (dropWhile isspace s)))"

text \<open>A text between single quotes, as an f-string template writes it.\<close>

definition quoted :: "string \<Rightarrow> string" where
  "quoted s = CHR 0x27 # s @ [CHR 0x27]"

fun starts_with :: "string \<Rightarrow> string \<Rightarrow> bool" where
  "starts_with [] s = True"
| "starts_with (p # ps) [] = False"
| "starts_with (p # ps) (c # cs) = (p = c \<and> starts_with ps cs)"

fun contains :: "string \<Rightarrow> string \<Rightarrow> bool" where
  "contains p [] = (p = [])"
| "contains p (c # cs) = (starts_with p (c # cs) \<or> contains p cs)"

section \<open>The world outside the code\<close>

subsection \<open>Images\<close>

text \<open>
  A decoded \<^verbatim>\<open>PIL.Image\<close>: its \<^verbatim>\<open>size\<close> and what \<^verbatim>\<open>convert("RGBA")\<close> yields, the
  flattened pixels or the exception it raises on corrupted data.
\<close>

type_synonym rgba = "nat \<times> nat \<times> nat \<times> nat"

record image =
  size_img :: "int \<times> int"
  convert_RGBA :: "exception + rgba list"

subsection \<open>Models\<close>

text \<open>
  A loaded \<^verbatim>\<open>SentenceTransformer\<close>, and the three objects \<^verbatim>\<open>from_pretrained\<close> yields
  for the image model: the model with its image and text towers, the processor that
  turns an image into model inputs and the tokenizer that turns texts into model inputs.
\<close>

record 'a text_model_t =
  encode :: "utext \<Rightarrow> exception + 'a list"
  get_sentence_embedding_dimension :: int

record ('a, 'x) image_model_t =
  get_image_features :: "'x \<Rightarrow> exception + 'a list"
  get_text_features :: "'x \<Rightarrow> exception + 'a list"

type_synonym 'x image_processor_t = "image \<Rightarrow> exception + 'x"

type_synonym 'x image_tokenizer_t = "utext list \<Rightarrow> exception + 'x"

subsection \<open>The vector store\<close>

text \<open>
  A row is the dictionary the ingestion builds for one file. The store holds named
  collections of rows; \<open>calls\<close> records every changing request it has served, in order.
\<close>

record 'a row =
  vector :: "'a list"
  path :: string
  modality :: string
  content :: utext
  metadata :: string

record 'a collection =
  dimension :: int
  entities :: "'a row list"

datatype call = CreateCollection string int | Insert string nat | Flush string

record 'a milvus_store =
  collections :: "string \<rightharpoonup> 'a collection"
  calls :: "call list"

text \<open>The arguments a \<^verbatim>\<open>MilvusClient\<close> was constructed with identify the client.\<close>

record client =
  uri :: string
  token :: "string option"
  db_name :: string

record 'a hit =
  hit_id :: int
  distance :: 'a
  entity :: "(string \<times> string) list"

record search_params_t =
  metric_type :: string
  nprobe :: int

subsection \<open>Configuration, environment and process state\<close>

record config =
  case_name :: string
  milvus_uri :: string
  milvus_db_name :: string
  milvus_token :: "string option"
  embed_text_model_name :: string
  embed_image_model_name :: string
  paths :: "string \<rightharpoonup> string"

record pathlib_path =
  str_path :: string
  suffix :: string

text \<open>
  Everything the code calls but does not define: the model hub, the image library, the
  file system, ExifTool and the store's answers to connection and search requests. Each
  field is named after the call it stands for.
\<close>

record ('a, 'x) env =
  SentenceTransformer :: "string \<Rightarrow> exception + 'a text_model_t"
  text_model_to_device :: "exception + unit"
  AutoProcessor_from_pretrained :: "string \<Rightarrow> exception + 'x image_processor_t"
  AutoTokenizer_from_pretrained :: "string \<Rightarrow> exception + 'x image_tokenizer_t"
  AutoModel_from_pretrained :: "string \<Rightarrow> exception + ('a, 'x) image_model_t"
  normalize :: "'a list \<Rightarrow> exception + 'a list"
  Image_open_convert_RGB :: "string \<Rightarrow> exception + image"
  getsize :: "string \<Rightarrow> int"
  rglob :: "string \<Rightarrow> pathlib_path list"
  is_file :: "pathlib_path \<Rightarrow> bool"
  read_text :: "pathlib_path \<Rightarrow> exception + utext"
  abspath :: "string \<Rightarrow> string"
  exists_path :: "string \<Rightarrow> bool"
  exiftool_get_metadata :: "string \<Rightarrow> exception + (string \<times> string option) list list"
  MilvusClient_init :: "client \<Rightarrow> exception + unit"
  list_collections :: "client \<Rightarrow> exception + string list"
  store_error :: "string \<Rightarrow> exception"
  search :: "client \<Rightarrow> string \<Rightarrow> 'a list list \<Rightarrow> string \<Rightarrow> int \<Rightarrow> search_params_t
               \<Rightarrow> string list \<Rightarrow> exception + 'a hit list list"

text \<open>
  The module-level globals of \<^verbatim>\<open>tools/embeddings.py\<close> and \<^verbatim>\<open>tools/milvus_tools.py\<close>,
  the clients constructed so far, the store and the lines handed to a logger.
\<close>

record ('a, 'x) world =
  text_model :: "'a text_model_t option"
  image_model :: "('a, 'x) image_model_t option"
  image_processor :: "'x image_processor_t option"
  image_tokenizer :: "'x image_tokenizer_t option"
  milvus_client_instance :: "client option"
  clients_built :: "client list"
  milvus :: "'a milvus_store"
  logged :: "(string \<times> string) list"

section \<open>tools/embeddings.py\<close>

subsection \<open>The icon filter\<close>

text \<open>
  \<^verbatim>\<open>Image.getcolors(maxcolors)\<close>: the distinct colours with their counts, or \<^verbatim>\<open>None\<close>
  when there are more than \<open>maxcolors\<close> of them.
\<close>

definition getcolors :: "nat \<Rightarrow> rgba list \<Rightarrow> (nat \<times> rgba) list option" where
  "getcolors maxcolors px =
     (let cs = remdups px
      in if length cs > maxcolors then None
         else Some (map (\<lambda>c. (count_list px c, c)) cs))"

definition EDGE_MAX :: int where
  "EDGE_MAX = 150"

definition COLORS_MAX :: nat where
  "COLORS_MAX = 256"

definition is_icon :: "image \<Rightarrow> int option \<Rightarrow> bool" where
  "is_icon img file_bytes =
     (case size_img img of (w, h) \<Rightarrow>
        if max w h > EDGE_MAX then False
        else (case convert_RGBA img of
                Inl e \<Rightarrow> False
              | Inr px \<Rightarrow>
                 (case getcolors (256 * 256) px of
                    None \<Rightarrow> False
                  | Some colours \<Rightarrow>
                      if length colours > COLORS_MAX then False
                      else (case file_bytes of
                              None \<Rightarrow> True
                            | Some b \<Rightarrow> if b > 10000 then False else True))))"

text \<open>A 16 by 16 image of one colour, used as a concrete small, low-colour image.\<close>

definition flat_icon :: image where
  "flat_icon = \<lparr> size_img = (16, 16), convert_RGBA = Inr (replicate 256 (0, 0, 0, 255)) \<rparr>"

subsection \<open>Cached models\<close>

definition get_text_model ::
  "('a, 'x) env \<Rightarrow> config \<Rightarrow> ('a, 'x) world \<Rightarrow> ('a, 'x) world \<times> (exception + 'a text_model_t)" where
  "get_text_model env cfg w =
     (case text_model w of
        None \<Rightarrow>
          (case SentenceTransformer env (embed_text_model_name cfg) of
             Inl e \<Rightarrow> (w, Inl e)
           | Inr m \<Rightarrow>
               (case text_model_to_device env of
                  Inl e \<Rightarrow> (w\<lparr>text_model := Some m\<rparr>, Inl e)
                | Inr u \<Rightarrow> (w\<lparr>text_model := Some m\<rparr>, Inr m)))
      | Some m \<Rightarrow> (w, Inr m))"

text \<open>
  \<open>get_image_model\<close> returns the three globals. The processor and the tokenizer are
  assigned before the model is, so a failed model load leaves them set and the model unset.
\<close>

definition get_image_model ::
  "('a, 'x) env \<Rightarrow> config \<Rightarrow> ('a, 'x) world \<Rightarrow>
     ('a, 'x) world \<times>
     (exception + ('a, 'x) image_model_t \<times> 'x image_processor_t option \<times> 'x image_tokenizer_t option)" where
  "get_image_model env cfg w =
     (case image_model w of
        None \<Rightarrow>
          (case AutoProcessor_from_pretrained env (embed_image_model_name cfg) of
             Inl e \<Rightarrow> (w, Inl e)
           | Inr p \<Rightarrow>
               (case AutoTokenizer_from_pretrained env (embed_image_model_name cfg) of
                  Inl e \<Rightarrow> (w\<lparr>image_processor := Some p\<rparr>, Inl e)
                | Inr t \<Rightarrow>
                    (case AutoModel_from_pretrained env (embed_image_model_name cfg) of
                       Inl e \<Rightarrow> (w\<lparr>image_processor := Some p, image_tokenizer := Some t\<rparr>, Inl e)
                     | Inr m \<Rightarrow>
                         (w\<lparr>image_processor := Some p, image_tokenizer := Some t,
                            image_model := Some m\<rparr>,
                          Inr (m, Some p, Some t)))))
      | Some m \<Rightarrow> (w, Inr (m, image_processor w, image_tokenizer w)))"

text \<open>Calling a global that is still \<^verbatim>\<open>None\<close> raises \<^verbatim>\<open>TypeError\<close>.\<close>

definition call_opt :: "('i \<Rightarrow> exception + 'o) option \<Rightarrow> 'i \<Rightarrow> exception + 'o" where
  "call_opt f x =
     (case f of
        None \<Rightarrow> Inl (TypeError (quoted ''NoneType'' @ '' object is not callable''))
      | Some g \<Rightarrow> g x)"

subsection \<open>Embedding\<close>

definition text2vector ::
  "('a, 'x) env \<Rightarrow> config \<Rightarrow> utext \<Rightarrow> ('a, 'x) world \<Rightarrow> ('a, 'x) world \<times> (exception + 'a list)" where
  "text2vector env cfg txt w =
     (case get_text_model env cfg w of
        (w1, Inl e) \<Rightarrow> (w1, Inl e)
      | (w1, Inr model) \<Rightarrow> (let snippet = take 500 txt in (w1, encode model snippet)))"

text \<open>
  \<open>image2vector\<close> loads the model outside its \<^verbatim>\<open>try\<close>, so a failed load is raised;
  every failure after that is answered with \<^verbatim>\<open>None\<close>. The icon filter is called with
  the image alone.
\<close>

definition image2vector ::
  "('a, 'x) env \<Rightarrow> config \<Rightarrow> string \<Rightarrow> bool \<Rightarrow> ('a, 'x) world \<Rightarrow>
     ('a, 'x) world \<times> (exception + 'a list option)" where
  "image2vector env cfg image_path filter_icons w =
     (case get_image_model env cfg w of
        (w1, Inl e) \<Rightarrow> (w1, Inl e)
      | (w1, Inr (model, processor, tok)) \<Rightarrow>
          (w1, Inr
            (case Image_open_convert_RGB env image_path of
               Inl e \<Rightarrow> None
             | Inr img \<Rightarrow>
                 if filter_icons \<and> is_icon img None then None
                 else (case call_opt processor img of
                         Inl e \<Rightarrow> None
                       | Inr inputs \<Rightarrow>
                           (case get_image_features model inputs of
                              Inl e \<Rightarrow> None
                            | Inr vec \<Rightarrow>
                                (case normalize env vec of
                                   Inl e \<Rightarrow> None
                                 | Inr v \<Rightarrow> Some v))))))"

text \<open>\<^verbatim>\<open>Image.new("RGB", (512, 512))\<close>, a black image.\<close>

definition dummy_image :: image where
  "dummy_image = \<lparr> size_img = (512, 512), convert_RGBA = Inr (replicate (512 * 512) (0, 0, 0, 255)) \<rparr>"

definition get_embedding_dimensions ::
  "('a, 'x) env \<Rightarrow> config \<Rightarrow> ('a, 'x) world \<Rightarrow> ('a, 'x) world \<times> (exception + int \<times> int)" where
  "get_embedding_dimensions env cfg w =
     (case get_text_model env cfg w of
        (w1, Inl e) \<Rightarrow> (w1, Inl e)
      | (w1, Inr tm) \<Rightarrow>
          (let text_dim = get_sentence_embedding_dimension tm
           in case get_image_model env cfg w1 of
                (w2, Inl e) \<Rightarrow> (w2, Inl e)
              | (w2, Inr (model, processor, tok)) \<Rightarrow>
                  (case call_opt processor dummy_image of
                     Inl e \<Rightarrow> (w2, Inl e)
                   | Inr inputs \<Rightarrow>
                       (case get_image_features model inputs of
                          Inl e \<Rightarrow> (w2, Inl e)
                        | Inr image_features \<Rightarrow>
                            (w2, Inr (text_dim, int (length image_features)))))))"

text \<open>The query encoder: the image model's tokenizer and text tower.\<close>

definition query2vector ::
  "('a, 'x) env \<Rightarrow> config \<Rightarrow> utext \<Rightarrow> ('a, 'x) world \<Rightarrow> ('a, 'x) world \<times> (exception + 'a list)" where
  "query2vector env cfg query w =
     (case get_image_model env cfg w of
        (w1, Inl e) \<Rightarrow> (w1, Inl e)
      | (w1, Inr (model, processor, tokenizer)) \<Rightarrow>
          (case call_opt tokenizer [query] of
             Inl e \<Rightarrow> (w1, Inl e)
           | Inr inputs \<Rightarrow>
               (case get_text_features model inputs of
                  Inl e \<Rightarrow> (w1, Inl e)
                | Inr vec \<Rightarrow> (w1, normalize env vec))))"

section \<open>tools/milvus\_tools.py\<close>

text \<open>
  The memoised client. The global is assigned as soon as the client is constructed and
  reset to \<^verbatim>\<open>None\<close> when the construction or the listing that tests the connection
  raises. The \<^verbatim>\<open>print\<close> calls are not modelled.
\<close>

definition get_milvus_client ::
  "('a, 'x) env \<Rightarrow> config \<Rightarrow> ('a, 'x) world \<Rightarrow> ('a, 'x) world \<times> client option" where
  "get_milvus_client env cfg w =
     (case milvus_client_instance w of
        Some c \<Rightarrow> (w, Some c)
      | None \<Rightarrow>
          (let c = \<lparr> uri = milvus_uri cfg, token = milvus_token cfg, db_name = milvus_db_name cfg \<rparr>
           in case MilvusClient_init env c of
                Inl e \<Rightarrow> (w\<lparr>milvus_client_instance := None\<rparr>, None)
              | Inr u \<Rightarrow>
                  (let w1 = w\<lparr>milvus_client_instance := Some c,
                               clients_built := clients_built w @ [c]\<rparr>
                   in case list_collections env c of
                        Inl e \<Rightarrow> (w1\<lparr>milvus_client_instance := None\<rparr>, None)
                      | Inr names \<Rightarrow> (w1, Some c))))"

text \<open>
  The search tool returns a list of dictionaries: the hits, or one dictionary with the
  key \<^verbatim>\<open>error\<close>.
\<close>

datatype 'a result_dict = Hit "'a hit" | ErrorDict string

fun search_failed :: "exception \<Rightarrow> string" where
  "search_failed (MilvusException s c m) =
     ''Milvus vector search failed: '' @ s @ '' (Code: '' @ str_int c @ '', Message: '' @ m @ '')''"
| "search_failed e = ''Milvus vector search failed with an unexpected error: '' @ str_exc e"

definition output_fields_or_default :: "string list option \<Rightarrow> string list" where
  "output_fields_or_default output_fields =
     (case output_fields of
        None \<Rightarrow> [''path'', ''modality'', ''metadata'']
      | Some fs \<Rightarrow> fs)"

definition milvus_text_image_search ::
  "('a, 'x) env \<Rightarrow> config \<Rightarrow> utext \<Rightarrow> string \<Rightarrow> string \<Rightarrow> int \<Rightarrow> string list option \<Rightarrow> string
     \<Rightarrow> ('a, 'x) world \<Rightarrow> ('a, 'x) world \<times> 'a result_dict list" where
  "milvus_text_image_search env cfg query_text collection_name vector_field limit output_fields
       metric w =
     (let output_fields1 = output_fields_or_default output_fields
      in case get_milvus_client env cfg w of
           (w1, None) \<Rightarrow> (w1, [ErrorDict ''Milvus client not available or connection failed.''])
         | (w1, Some client) \<Rightarrow>
             (case query2vector env cfg query_text w1 of
                (w2, Inl e) \<Rightarrow>
                  (w2, [ErrorDict (''Failed to convert query to vector: '' @ str_exc e)])
              | (w2, Inr query_vector_list) \<Rightarrow>
                  (let search_params = \<lparr> metric_type = metric, nprobe = 10 \<rparr>
                   in case search env client collection_name [query_vector_list] vector_field
                             limit search_params output_fields1 of
                        Inr results \<Rightarrow>
                          (w2, case results of [] \<Rightarrow> [] | r # rs \<Rightarrow> map Hit r)
                      | Inl e \<Rightarrow> (w2, [ErrorDict (search_failed e)]))))"

section \<open>utils/get\_attachments\_metadata.py\<close>

definition exclude_patterns :: "string list" where
  "exclude_patterns =
     [''File:Directory'', ''File:FileName'', ''SourceFile'',
      ''File:FileModifyDate'', ''File:FileAccessDate'', ''File:FileCreateDate'',
      ''EXIF:CreateDate'', ''EXIF:ModifyDate'', ''EXIF:DateTimeOriginal'',
      ''XMP:CreateDate'', ''XMP:ModifyDate'', ''XMP:DateCreated'',
      ''IPTC:DateCreated'', ''IPTC:TimeCreated'', ''File:FileInodeChangeDate'',
      '':Date'', '':Time'']"

fun join :: "string \<Rightarrow> string list \<Rightarrow> string" where
  "join sep [] = []"
| "join sep [x] = x"
| "join sep (x # y # ys) = x @ sep @ join sep (y # ys)"

text \<open>
  The tags kept, formatted: the items sorted by key, without the tags whose value is
  \<^verbatim>\<open>None\<close> or blank and without the tags whose key contains an excluded pattern.
\<close>

definition filtered_metadata :: "(string \<times> string option) list \<Rightarrow> string list" where
  "filtered_metadata md =
     concat (map (\<lambda>(key, val).
        case val of
          None \<Rightarrow> []
        | Some v \<Rightarrow>
            if strip v = [] then []
            else if list_ex (\<lambda>pattern. contains (lower pattern) (lower key)) exclude_patterns then []
            else [''  '' @ key @ '': '' @ v]) (sort_key fst md))"

text \<open>
  The whole body is inside one \<^verbatim>\<open>try\<close> whose handlers return a text, so the function
  returns a text on every path. The first entry of an empty answer raises \<^verbatim>\<open>IndexError\<close>,
  which the second handler catches.
\<close>

definition extraction_error :: "string \<Rightarrow> exception \<Rightarrow> string" where
  "extraction_error file_path e =
     (case e of
        ExifToolExecuteError s \<Rightarrow>
          ''Error: ExifTool failed to execute. Ensure ExifTool is installed and in PATH.\<newline>Details: '' @ s
      | _ \<Rightarrow> ''Error extracting metadata for '' @ quoted file_path @ '': '' @ str_exc e)"

definition get_all_metadata :: "('a, 'x) env \<Rightarrow> string \<Rightarrow> string" where
  "get_all_metadata env file_path0 =
     (let file_path = abspath env file_path0
      in if \<not> exists_path env file_path
         then ''Error: File '' @ quoted file_path @ '' does not exist.''
         else (case exiftool_get_metadata env file_path of
                 Inl e \<Rightarrow> extraction_error file_path e
               | Inr [] \<Rightarrow> extraction_error file_path (IndexError ''list index out of range'')
               | Inr (md # rest) \<Rightarrow>
                   if md = [] then strip (''ExifTool Metadata:\<newline>'' @ ''  (No metadata found)\<newline>'')
                   else (let metadata_string =
                               ''ExifTool Metadata:\<newline>''
                               @ ''ExifTool Metadata (Excluding Directories and Dates):\<newline>'';
                             kept = filtered_metadata md
                         in if kept \<noteq> []
                            then strip (metadata_string @ join ''\<newline>'' kept)
                            else strip (metadata_string
                                   @ ''  (No metadata found after filtering directories and dates)''))))"

section \<open>utils/preprocess\_attachments.py\<close>

subsection \<open>The client's methods and the logger\<close>

text \<open>
  The store is taken to answer every request: it creates a collection that is absent,
  keeps one that is there with the same dimension, appends the rows of an insert, and
  rejects only a request on a collection that is absent or a creation that disagrees with
  the collection that is there. A rejected request raises the exception the environment
  gives for the collection's name (\<open>store_error\<close>). \<open>calls\<close> records each changing
  request received.
\<close>

definition has_collection :: "'a milvus_store \<Rightarrow> string \<Rightarrow> bool" where
  "has_collection st name = (collections st name \<noteq> None)"

definition client_create_collection ::
  "('a, 'x) env \<Rightarrow> 'a milvus_store \<Rightarrow> string \<Rightarrow> int \<Rightarrow> 'a milvus_store \<times> (exception + unit)" where
  "client_create_collection env st name dim =
     (let st1 = st\<lparr>calls := calls st @ [CreateCollection name dim]\<rparr>
      in case collections st name of
           None \<Rightarrow>
             (st1\<lparr>collections := (collections st)(name \<mapsto> \<lparr> dimension = dim, entities = [] \<rparr>)\<rparr>,
              Inr ())
         | Some c \<Rightarrow>
             if dimension c = dim then (st1, Inr ()) else (st1, Inl (store_error env name)))"

definition client_insert ::
  "('a, 'x) env \<Rightarrow> 'a milvus_store \<Rightarrow> string \<Rightarrow> 'a row list \<Rightarrow> 'a milvus_store \<times> (exception + unit)" where
  "client_insert env st name rows =
     (let st1 = st\<lparr>calls := calls st @ [Insert name (length rows)]\<rparr>
      in case collections st name of
           None \<Rightarrow> (st1, Inl (store_error env name))
         | Some c \<Rightarrow>
             (st1\<lparr>collections := (collections st)(name \<mapsto> c\<lparr>entities := entities c @ rows\<rparr>)\<rparr>,
              Inr ()))"

definition client_flush ::
  "('a, 'x) env \<Rightarrow> 'a milvus_store \<Rightarrow> string \<Rightarrow> 'a milvus_store \<times> (exception + unit)" where
  "client_flush env st name =
     (let st1 = st\<lparr>calls := calls st @ [Flush name]\<rparr>
      in case collections st name of
           None \<Rightarrow> (st1, Inl (store_error env name))
         | Some c \<Rightarrow> (st1, Inr ()))"

text \<open>\<^verbatim>\<open>int(client.get_collection_stats(name)["row_count"])\<close>.\<close>

definition row_count :: "('a, 'x) env \<Rightarrow> 'a milvus_store \<Rightarrow> string \<Rightarrow> exception + int" where
  "row_count env st name =
     (case collections st name of
        None \<Rightarrow> Inl (store_error env name)
      | Some c \<Rightarrow> Inr (int (length (entities c))))"

text \<open>
  The \<^verbatim>\<open>logger\<close> argument defaults to \<^verbatim>\<open>None\<close>; a method called on \<^verbatim>\<open>None\<close>
  raises \<^verbatim>\<open>AttributeError\<close>.
\<close>

datatype logger = Logger string

definition logger_call ::
  "string \<Rightarrow> logger option \<Rightarrow> string \<Rightarrow> ('a, 'x) world \<Rightarrow> ('a, 'x) world \<times> (exception + unit)" where
  "logger_call level lg msg w =
     (case lg of
        None \<Rightarrow>
          (w, Inl (AttributeError (quoted ''NoneType'' @ '' object has no attribute '' @ quoted level)))
      | Some l \<Rightarrow> (w\<lparr>logged := logged w @ [(level, msg)]\<rparr>, Inr ()))"

text \<open>Sequencing: the second step runs when the first has not raised.\<close>

definition and_then ::
  "'s \<times> (exception + 'r) \<Rightarrow> ('s \<Rightarrow> 'r \<Rightarrow> 's \<times> (exception + 'q)) \<Rightarrow> 's \<times> (exception + 'q)" where
  "and_then m k = (case m of (s, Inl e) \<Rightarrow> (s, Inl e) | (s, Inr r) \<Rightarrow> k s r)"

definition on_store ::
  "('a, 'x) world \<Rightarrow> 'a milvus_store \<times> (exception + 'r) \<Rightarrow> ('a, 'x) world \<times> (exception + 'r)" where
  "on_store w m = (case m of (st, r) \<Rightarrow> (w\<lparr>milvus := st\<rparr>, r))"

definition create_collection ::
  "('a, 'x) env \<Rightarrow> string \<Rightarrow> int \<Rightarrow> logger option \<Rightarrow> ('a, 'x) world \<Rightarrow> ('a, 'x) world \<times> (exception + unit)" where
  "create_collection env name dim lg w =
     and_then (if lg \<noteq> None then logger_call ''info'' lg (''Creating collection '' @ name) w
               else (w, Inr ()))
       (\<lambda>w1 u. on_store w1 (client_create_collection env (milvus w1) name dim))"

subsection \<open>The batches\<close>

text \<open>
  The local variables of \<open>preprocess_data_to_milvus\<close> that its inner functions share: the
  two batch dictionaries, one field for each list they hold, beside the process state.
\<close>

record ('a, 'x) ingest_state =
  wld :: "('a, 'x) world"
  img_vector :: "'a list list"
  img_path :: "string list"
  txt_vector :: "'a list list"
  txt_path :: "string list"
  txt_content :: "utext list"

definition BATCH_SIZE :: nat where
  "BATCH_SIZE = 100"

definition IMAGE_COLL :: "config \<Rightarrow> string" where
  "IMAGE_COLL cfg = case_name cfg @ ''__attachments_image''"

definition TEXT_COLL :: "config \<Rightarrow> string" where
  "TEXT_COLL cfg = case_name cfg @ ''__attachments_text''"

definition get_default :: "('k \<rightharpoonup> 'v) \<Rightarrow> 'k \<Rightarrow> 'v \<Rightarrow> 'v" where
  "get_default d k v = (case d k of None \<Rightarrow> v | Some x \<Rightarrow> x)"

text \<open>\<^verbatim>\<open>BaseConfig.get_path("attached_artifact_dir")\<close>.\<close>

definition get_path_attached_artifact_dir :: "config \<Rightarrow> string" where
  "get_path_attached_artifact_dir cfg =
     get_default (paths cfg) ''base_dir'' ''test/backup'' @ ''/'' @ case_name cfg @ ''/''
       @ get_default (paths cfg) ''attached_artifact_dir'' ''Export/Attachments''"

definition flush_img ::
  "('a, 'x) env \<Rightarrow> config \<Rightarrow> ('a, 'x) ingest_state \<Rightarrow> ('a, 'x) ingest_state \<times> (exception + unit)" where
  "flush_img env cfg st =
     (if img_vector st = [] then (st, Inr ())
      else
        (let rows = map (\<lambda>(v, p). \<lparr> vector = v, path = p, modality = ''image'', content = [],
                                    metadata = get_all_metadata env p \<rparr>)
                      (zip (img_vector st) (img_path st))
         in case client_insert env (milvus (wld st)) (IMAGE_COLL cfg) rows of
              (m, Inl e) \<Rightarrow> (st\<lparr>wld := (wld st)\<lparr>milvus := m\<rparr>\<rparr>, Inl e)
            | (m, Inr u) \<Rightarrow>
                (st\<lparr>wld := (wld st)\<lparr>milvus := m\<rparr>, img_vector := [], img_path := []\<rparr>, Inr ())))"

definition flush_txt ::
  "('a, 'x) env \<Rightarrow> config \<Rightarrow> ('a, 'x) ingest_state \<Rightarrow> ('a, 'x) ingest_state \<times> (exception + unit)" where
  "flush_txt env cfg st =
     (if txt_vector st = [] then (st, Inr ())
      else
        (let rows = map (\<lambda>(v, p, c). \<lparr> vector = v, path = p, modality = ''text'', content = c,
                                       metadata = get_all_metadata env p \<rparr>)
                      (zip (txt_vector st) (zip (txt_path st) (txt_content st)))
         in case client_insert env (milvus (wld st)) (TEXT_COLL cfg) rows of
              (m, Inl e) \<Rightarrow> (st\<lparr>wld := (wld st)\<lparr>milvus := m\<rparr>\<rparr>, Inl e)
            | (m, Inr u) \<Rightarrow>
                (st\<lparr>wld := (wld st)\<lparr>milvus := m\<rparr>,
                    txt_vector := [], txt_path := [], txt_content := []\<rparr>, Inr ())))"

subsection \<open>One file\<close>

text \<open>
  \<open>embed_file\<close> is the body of the \<^verbatim>\<open>try\<close> in \<open>process_file\<close>: the dispatch on the
  lower-cased suffix, with its two branches \<open>embed_image_file\<close> and \<open>embed_text_file\<close>.
  \<open>process_file\<close> adds the handler, which logs the exception.
\<close>

definition embed_image_file ::
  "('a, 'x) env \<Rightarrow> config \<Rightarrow> pathlib_path \<Rightarrow> ('a, 'x) ingest_state
     \<Rightarrow> ('a, 'x) ingest_state \<times> (exception + unit)" where
  "embed_image_file env cfg p st =
     (case image2vector env cfg (str_path p) True (wld st) of
        (w1, Inl e) \<Rightarrow> (st\<lparr>wld := w1\<rparr>, Inl e)
      | (w1, Inr None) \<Rightarrow> (st\<lparr>wld := w1\<rparr>, Inr ())
      | (w1, Inr (Some vec)) \<Rightarrow>
          (st\<lparr>wld := w1, img_vector := img_vector st @ [vec],
              img_path := img_path st @ [str_path p]\<rparr>, Inr ()))"

definition embed_text_file ::
  "('a, 'x) env \<Rightarrow> config \<Rightarrow> pathlib_path \<Rightarrow> ('a, 'x) ingest_state
     \<Rightarrow> ('a, 'x) ingest_state \<times> (exception + unit)" where
  "embed_text_file env cfg p st =
     (case read_text env p of
        Inl e \<Rightarrow> (st, Inl e)
      | Inr full_text \<Rightarrow>
          (let snippet = take 500 full_text
           in case text2vector env cfg snippet (wld st) of
                (w1, Inl e) \<Rightarrow> (st\<lparr>wld := w1\<rparr>, Inl e)
              | (w1, Inr vec) \<Rightarrow>
                  (st\<lparr>wld := w1, txt_vector := txt_vector st @ [vec],
                      txt_path := txt_path st @ [str_path p],
                      txt_content := txt_content st @ [snippet]\<rparr>, Inr ())))"

definition embed_file ::
  "('a, 'x) env \<Rightarrow> config \<Rightarrow> pathlib_path \<Rightarrow> ('a, 'x) ingest_state
     \<Rightarrow> ('a, 'x) ingest_state \<times> (exception + unit)" where
  "embed_file env cfg p st =
     (if lower (suffix p) \<in> {''.jpg'', ''.jpeg'', ''.png''} then embed_image_file env cfg p st
      else if lower (suffix p) \<in> {''.txt'', ''.md''} then embed_text_file env cfg p st
      else (st, Inr ()))"

definition on_world ::
  "('a, 'x) ingest_state \<Rightarrow> ('a, 'x) world \<times> (exception + 'r)
     \<Rightarrow> ('a, 'x) ingest_state \<times> (exception + 'r)" where
  "on_world st m = (case m of (w, r) \<Rightarrow> (st\<lparr>wld := w\<rparr>, r))"

definition process_file ::
  "('a, 'x) env \<Rightarrow> config \<Rightarrow> logger option \<Rightarrow> pathlib_path \<Rightarrow> ('a, 'x) ingest_state
     \<Rightarrow> ('a, 'x) ingest_state \<times> (exception + unit)" where
  "process_file env cfg lg p st =
     (case embed_file env cfg p st of
        (st1, Inr u) \<Rightarrow> (st1, Inr ())
      | (st1, Inl e) \<Rightarrow>
          on_world st1
            (logger_call ''error'' lg (''Failed to ingest '' @ str_path p @ '': '' @ str_exc e)
               (wld st1)))"

subsection \<open>The walk\<close>

fun ingest_files ::
  "('a, 'x) env \<Rightarrow> config \<Rightarrow> logger option \<Rightarrow> pathlib_path list \<Rightarrow> ('a, 'x) ingest_state
     \<Rightarrow> ('a, 'x) ingest_state \<times> (exception + unit)" where
  "ingest_files env cfg lg [] st = (st, Inr ())"
| "ingest_files env cfg lg (f # fs) st =
     and_then (process_file env cfg lg f st)
       (\<lambda>st1 u. and_then (if length (img_vector st1) \<ge> BATCH_SIZE then flush_img env cfg st1
                           else (st1, Inr ()))
          (\<lambda>st2 u. and_then (if length (txt_vector st2) \<ge> BATCH_SIZE then flush_txt env cfg st2
                              else (st2, Inr ()))
             (\<lambda>st3 u. ingest_files env cfg lg fs st3)))"

text \<open>
  \<open>preprocess_data_to_milvus\<close> is given in four parts: the walk with the two
  flushes that drain the batches after it (\<open>walk_and_drain\<close>), the commit with the report
  of the row counts (\<open>commit_and_report\<close>), everything after the check that both
  collections exist (\<open>embed_and_upload\<close>), and the function itself, which constructs its
  client, makes that check and returns or goes on.
\<close>

definition walk_and_drain ::
  "('a, 'x) env \<Rightarrow> config \<Rightarrow> logger option \<Rightarrow> pathlib_path list \<Rightarrow> ('a, 'x) ingest_state
     \<Rightarrow> ('a, 'x) ingest_state \<times> (exception + unit)" where
  "walk_and_drain env cfg lg files st =
     and_then (ingest_files env cfg lg files st)
       (\<lambda>st1 u. and_then (flush_img env cfg st1)
          (\<lambda>st2 u. flush_txt env cfg st2))"

definition commit_and_report ::
  "('a, 'x) env \<Rightarrow> config \<Rightarrow> logger option \<Rightarrow> ('a, 'x) world
     \<Rightarrow> ('a, 'x) world \<times> (exception + unit)" where
  "commit_and_report env cfg lg w =
     and_then (on_store w (client_flush env (milvus w) (IMAGE_COLL cfg)))
       (\<lambda>w4 u. and_then (on_store w4 (client_flush env (milvus w4) (TEXT_COLL cfg)))
          (\<lambda>w5 u.
             (case row_count env (milvus w5) (IMAGE_COLL cfg) of
                Inl e \<Rightarrow> (w5, Inl e)
              | Inr img_count \<Rightarrow>
                  (case row_count env (milvus w5) (TEXT_COLL cfg) of
                     Inl e \<Rightarrow> (w5, Inl e)
                   | Inr txt_count \<Rightarrow>
                       logger_call ''info'' lg
                         (''Done. Image entities: '' @ str_int img_count
                            @ '', Text entities: '' @ str_int txt_count) w5))))"

definition embed_and_upload ::
  "('a, 'x) env \<Rightarrow> config \<Rightarrow> logger option \<Rightarrow> ('a, 'x) world \<Rightarrow> ('a, 'x) world \<times> (exception + unit)" where
  "embed_and_upload env cfg lg w0 =
     and_then (get_embedding_dimensions env cfg w0)
       (\<lambda>w1 (DIM_TEXT, DIM_IMAGE).
     and_then (create_collection env (IMAGE_COLL cfg) DIM_IMAGE lg w1)
       (\<lambda>w2 u.
     and_then (create_collection env (TEXT_COLL cfg) DIM_TEXT lg w2)
       (\<lambda>w3 u.
     (let files = filter (is_file env) (rglob env (get_path_attached_artifact_dir cfg));
          st = \<lparr> wld = w3, img_vector = [], img_path = [],
                 txt_vector = [], txt_path = [], txt_content = [] \<rparr>
      in case walk_and_drain env cfg lg files st of
           (st3, Inl e) \<Rightarrow> (wld st3, Inl e)
         | (st3, Inr u) \<Rightarrow> commit_and_report env cfg lg (wld st3)))))"

definition preprocess_data_to_milvus ::
  "('a, 'x) env \<Rightarrow> config \<Rightarrow> logger option \<Rightarrow> ('a, 'x) world \<Rightarrow> ('a, 'x) world \<times> (exception + unit)" where
  "preprocess_data_to_milvus env cfg lg w =
     (let client = \<lparr> uri = milvus_uri cfg, token = Some '''', db_name = '''' \<rparr>
      in case MilvusClient_init env client of
           Inl e \<Rightarrow> (w, Inl e)
         | Inr u \<Rightarrow>
             (let w0 = w\<lparr>clients_built := clients_built w @ [client]\<rparr>
              in if has_collection (milvus w0) (IMAGE_COLL cfg)
                    \<and> has_collection (milvus w0) (TEXT_COLL cfg)
                 then logger_call ''info'' lg
                        ''Both collections already exist, skipping data processing'' w0
                 else embed_and_upload env cfg lg w0))"

section \<open>A small case for evaluation\<close>

text \<open>
  A concrete environment: vectors of integers, model inputs that are numbers, a text model
  of dimension 2 and an image model of dimension 3, a tree of \<open>n\<close> text files, an image
  library that decodes every file to \<open>flat_icon\<close> and reports 50,000 bytes for it, an
  ExifTool that fails on the first text file, and a store that knows no collection named
  \<^verbatim>\<open>nowhere\<close>.
\<close>

definition demo_text_model :: "int text_model_t" where
  "demo_text_model = \<lparr> encode = (\<lambda>t. Inr [int (length t), 1]), get_sentence_embedding_dimension = 2 \<rparr>"

definition demo_image_model :: "(int, nat) image_model_t" where
  "demo_image_model =
     \<lparr> get_image_features = (\<lambda>x. Inr [int x, 0, 1]), get_text_features = (\<lambda>x. Inr [int x, 1, 0]) \<rparr>"

definition demo_file :: "nat \<Rightarrow> pathlib_path" where
  "demo_file i = \<lparr> str_path = ''case/note'' @ str_nat i @ ''.txt'', suffix = ''.txt'' \<rparr>"

definition demo_hit :: "int hit" where
  "demo_hit = \<lparr> hit_id = 1, distance = 9, entity = [(''path'', ''case/photo.jpg'')] \<rparr>"

definition demo_fault :: exception where
  "demo_fault = MilvusException ''<MilvusException: (code=100, message=collection not found)>''
                  100 ''collection not found''"

definition demo_env :: "nat \<Rightarrow> (int, nat) env" where
  "demo_env n =
     \<lparr> SentenceTransformer = (\<lambda>name. Inr demo_text_model),
       text_model_to_device = Inr (),
       AutoProcessor_from_pretrained = (\<lambda>name. Inr (\<lambda>img. Inr (nat (fst (size_img img))))),
       AutoTokenizer_from_pretrained = (\<lambda>name. Inr (\<lambda>ts. Inr (length (concat ts)))),
       AutoModel_from_pretrained = (\<lambda>name. Inr demo_image_model),
       normalize = (\<lambda>v. Inr v),
       Image_open_convert_RGB = (\<lambda>p. Inr flat_icon),
       getsize = (\<lambda>p. 50000),
       rglob = (\<lambda>root. map demo_file [0..<n]),
       is_file = (\<lambda>p. True),
       read_text = (\<lambda>p. Inr [104, 105]),
       abspath = (\<lambda>p. p),
       exists_path = (\<lambda>p. True),
       exiftool_get_metadata =
         (\<lambda>p. if p = ''case/note0.txt'' then Inl (Exception ''file is damaged'')
              else Inr [[(''File:FileType'', Some ''TXT'')]]),
       MilvusClient_init = (\<lambda>c. Inr ()),
       list_collections = (\<lambda>c. Inr []),
       store_error = (\<lambda>name. demo_fault),
       search = (\<lambda>c name vs field limit params fields.
                   if name = ''nowhere'' then Inl demo_fault else Inr [[demo_hit]]) \<rparr>"

definition demo_cfg :: config where
  "demo_cfg =
     \<lparr> case_name = ''demo'', milvus_uri = ''http://localhost:19530'', milvus_db_name = ''default'',
       milvus_token = None, embed_text_model_name = ''text-model'',
       embed_image_model_name = ''image-model'', paths = Map.empty \<rparr>"

definition demo_world :: "(int, nat) world" where
  "demo_world =
     \<lparr> text_model = None, image_model = None, image_processor = None, image_tokenizer = None,
       milvus_client_instance = None, clients_built = [],
       milvus = \<lparr> collections = Map.empty, calls = [] \<rparr>, logged = [] \<rparr>"

definition demo_client :: client where
  "demo_client = \<lparr> uri = ''http://localhost:19530'', token = None, db_name = ''default'' \<rparr>"

definition icon_file :: pathlib_path where
  "icon_file = \<lparr> str_path = ''case/logo.PNG'', suffix = ''.PNG'' \<rparr>"

section \<open>Notions used in the statements\<close>

text \<open>
  A file is an eligible text file, for the text model \<open>m\<close> in use, when its suffix is a
  text suffix in any letter case, it can be read and its snippet can be encoded.
\<close>

definition image_suffixed :: "pathlib_path \<Rightarrow> bool" where
  "image_suffixed p = (lower (suffix p) \<in> {''.jpg'', ''.jpeg'', ''.png''})"

definition text_suffixed :: "pathlib_path \<Rightarrow> bool" where
  "text_suffixed p = (lower (suffix p) \<in> {''.txt'', ''.md''})"

definition eligible_text :: "('a, 'x) env \<Rightarrow> 'a text_model_t \<Rightarrow> pathlib_path \<Rightarrow> bool" where
  "eligible_text env m p =
     (text_suffixed p \<and>
      (case read_text env p of
         Inl e \<Rightarrow> False
       | Inr t \<Rightarrow> (case encode m (take 500 t) of Inl e \<Rightarrow> False | Inr v \<Rightarrow> True)))"

text \<open>
  \<open>keeps w w'\<close>: from \<open>w\<close> to \<open>w'\<close> no client was constructed, the memoised client is
  the same and no collection has disappeared.
\<close>

definition keeps :: "('a, 'x) world \<Rightarrow> ('a, 'x) world \<Rightarrow> bool" where
  "keeps w w' =
     (clients_built w' = clients_built w
      \<and> milvus_client_instance w' = milvus_client_instance w
      \<and> (\<forall>name. has_collection (milvus w) name \<longrightarrow> has_collection (milvus w') name))"

text \<open>
  The state of a walk over a tree without image files, between two files: the text model
  \<open>m\<close> is cached, the image batch is empty, the text collection exists, the three lists
  of the text batch have one length, and that length is below the batch size.
\<close>

definition text_walk :: "config \<Rightarrow> 'a text_model_t \<Rightarrow> ('a, 'x) ingest_state \<Rightarrow> bool" where
  "text_walk cfg m st =
     (text_model (wld st) = Some m
      \<and> img_vector st = []
      \<and> has_collection (milvus (wld st)) (TEXT_COLL cfg)
      \<and> length (txt_path st) = length (txt_vector st)
      \<and> length (txt_content st) = length (txt_vector st)
      \<and> length (txt_vector st) < BATCH_SIZE)"

text \<open>The rows of a collection, none when the collection is absent.\<close>

definition rows_of :: "('a, 'x) world \<Rightarrow> string \<Rightarrow> 'a row list" where
  "rows_of w name = (case collections (milvus w) name of None \<Rightarrow> [] | Some c \<Rightarrow> entities c)"

text \<open>The paths of the text records so far, those stored and then those still in the batch.\<close>

definition text_paths :: "config \<Rightarrow> ('a, 'x) ingest_state \<Rightarrow> string list" where
  "text_paths cfg st = map path (rows_of (wld st) (TEXT_COLL cfg)) @ txt_path st"

text \<open>The client that \<open>preprocess_data_to_milvus\<close> constructs.\<close>

definition ingestion_client :: "config \<Rightarrow> client" where
  "ingestion_client cfg = \<lparr> uri = milvus_uri cfg, token = Some '''', db_name = '''' \<rparr>"

section \<open>Properties of the icon filter\<close>

lemma remdups_replicate_one: "remdups (replicate n x) = (if n = 0 then [] else [x])"
  by (induction n) auto

lemma flat_icon_is_icon: "is_icon flat_icon None"
  by (simp add: is_icon_def flat_icon_def getcolors_def EDGE_MAX_def COLORS_MAX_def
      remdups_replicate_one)

text \<open>
  C7. Whenever a file-size hint above 10,000 bytes is supplied, \<open>is_icon\<close> answers
  \<open>False\<close>, whatever the image: also for an image of at most 150 pixels a side with at
  most 256 distinct colours.
\<close>

theorem is_icon_size_hint_override:
  "b > 10000 \<Longrightarrow> is_icon img (Some b) = False"
  by (simp add: is_icon_def split: prod.splits sum.splits option.splits)

theorem is_icon_size_hint_override_witness:
  "(10001::int) > 10000 \<and> is_icon flat_icon None \<and> is_icon flat_icon (Some 10001) = False"
  using is_icon_size_hint_override [of 10001 flat_icon] flat_icon_is_icon by simp

section \<open>Properties of the embedding provider\<close>



lemma logger_call_frame:
  "logger_call level lg msg w = (w', r) \<Longrightarrow>
     milvus w' = milvus w \<and> clients_built w' = clients_built w
     \<and> milvus_client_instance w' = milvus_client_instance w \<and> text_model w' = text_model w"
  by (auto simp: logger_call_def split: option.splits)

text \<open>
  C10. \<open>image2vector\<close> calls the icon filter with the image alone. So an image that the
  filter takes for an icon without a size hint never gets a vector, the ingestion of its
  file leaves the image batch as it was, and the size of the file on disk has no part in
  the result.
\<close>

theorem icon_filter_without_size_hint:
  assumes "lower (suffix p) \<in> {''.jpg'', ''.jpeg'', ''.png''}"
      and "Image_open_convert_RGB env (str_path p) = Inr img"
      and "is_icon img None"
  shows "(\<forall>v. snd (image2vector env cfg (str_path p) True w) \<noteq> Inr (Some v))
       \<and> img_vector (fst (process_file env cfg lg p st)) = img_vector st
       \<and> image2vector (env\<lparr>getsize := g\<rparr>) cfg (str_path p) True w
           = image2vector env cfg (str_path p) True w"
proof -
  have a: "\<forall>v. snd (image2vector env cfg (str_path p) True w) \<noteq> Inr (Some v)" for w
    using assms(2,3) by (simp add: image2vector_def split: prod.splits sum.splits)
  have b: "img_vector (fst (embed_image_file env cfg p st)) = img_vector st"
    using a [of "wld st"]
    by (auto simp: embed_image_file_def split: prod.splits sum.splits option.splits)
  have c: "img_vector (fst (process_file env cfg lg p st)) = img_vector st"
    using b assms(1)
    by (auto simp: process_file_def embed_file_def on_world_def logger_call_def
             split: prod.splits sum.splits option.splits)
  have gm: "get_image_model (env\<lparr>getsize := g\<rparr>) cfg w = get_image_model env cfg w"
    by (simp add: get_image_model_def split: option.splits sum.splits)
  have d: "image2vector (env\<lparr>getsize := g\<rparr>) cfg (str_path p) True w
           = image2vector env cfg (str_path p) True w"
    by (simp add: image2vector_def gm split: prod.splits sum.splits option.splits)
  from a c d show ?thesis by blast
qed

lemma lower_PNG: "lower ''.PNG'' = ''.png''"
  by code_simp

theorem icon_filter_without_size_hint_witness:
  "lower (suffix icon_file) \<in> {''.jpg'', ''.jpeg'', ''.png''}
   \<and> Image_open_convert_RGB (demo_env 0) (str_path icon_file) = Inr flat_icon
   \<and> is_icon flat_icon None
   \<and> getsize (demo_env 0) (str_path icon_file) > 10000
   \<and> \<not> is_icon flat_icon (Some (getsize (demo_env 0) (str_path icon_file)))
   \<and> (\<forall>v. snd (image2vector (demo_env 0) demo_cfg (str_path icon_file) True demo_world)
            \<noteq> Inr (Some v))"
proof -
  have h1: "lower (suffix icon_file) \<in> {''.jpg'', ''.jpeg'', ''.png''}"
    by (simp add: icon_file_def lower_PNG)
  have h2: "Image_open_convert_RGB (demo_env 0) (str_path icon_file) = Inr flat_icon"
    by (simp add: demo_env_def)
  have h4: "getsize (demo_env 0) (str_path icon_file) = 50000"
    by (simp add: demo_env_def)
  have h5: "\<not> is_icon flat_icon (Some 50000)"
    by (simp add: is_icon_def split: prod.splits sum.splits option.splits)
  show ?thesis
    using icon_filter_without_size_hint [OF h1 h2 flat_icon_is_icon, of demo_cfg demo_world]
          h1 h2 h4 h5 flat_icon_is_icon
    by simp
qed

section \<open>Properties of the search tool\<close>

lemma get_image_model_text_model:
  "get_image_model (env\<lparr>SentenceTransformer := ld, text_model_to_device := td\<rparr>) cfg
       (w\<lparr>text_model := tm\<rparr>)
     = (case get_image_model env cfg w of (w', r) \<Rightarrow> (w'\<lparr>text_model := tm\<rparr>, r))"
  by (simp add: get_image_model_def split: option.splits sum.splits)

lemma query2vector_text_model:
  "query2vector (env\<lparr>SentenceTransformer := ld, text_model_to_device := td\<rparr>) cfg q
       (w\<lparr>text_model := tm\<rparr>)
     = (case query2vector env cfg q w of (w', r) \<Rightarrow> (w'\<lparr>text_model := tm\<rparr>, r))"
  by (simp add: query2vector_def get_image_model_text_model
           split: prod.splits sum.splits option.splits)

lemma get_milvus_client_text_model:
  "get_milvus_client (env\<lparr>SentenceTransformer := ld, text_model_to_device := td\<rparr>) cfg
       (w\<lparr>text_model := tm\<rparr>)
     = (case get_milvus_client env cfg w of (w', r) \<Rightarrow> (w'\<lparr>text_model := tm\<rparr>, r))"
  by (simp add: get_milvus_client_def Let_def split: option.splits sum.splits)

lemma search_text_model:
  "milvus_text_image_search (env\<lparr>SentenceTransformer := ld, text_model_to_device := td\<rparr>) cfg
       q coll field limit ofs metric (w\<lparr>text_model := tm\<rparr>)
     = (case milvus_text_image_search env cfg q coll field limit ofs metric w of
          (w', r) \<Rightarrow> (w'\<lparr>text_model := tm\<rparr>, r))"
  by (simp add: milvus_text_image_search_def get_milvus_client_text_model query2vector_text_model
           split: prod.splits sum.splits option.splits)

lemma search_unfold:
  assumes "get_milvus_client env cfg w = (w1, Some cl)"
      and "query2vector env cfg q w1 = (w2, Inr v)"
  shows "milvus_text_image_search env cfg q coll field limit ofs metric w
         = (w2, case search env cl coll [v] field limit \<lparr> metric_type = metric, nprobe = 10 \<rparr>
                       (output_fields_or_default ofs) of
                  Inr results \<Rightarrow> (case results of [] \<Rightarrow> [] | r # rs \<Rightarrow> map Hit r)
                | Inl e \<Rightarrow> [ErrorDict (search_failed e)])"
  using assms by (simp add: milvus_text_image_search_def split: sum.splits)

lemma query2vector_unfold:
  assumes "get_image_model env cfg w = (w1, Inr (m, p, Some tk))"
      and "tk [q] = Inr x" and "get_text_features m x = Inr u"
  shows "query2vector env cfg q w = (w1, normalize env u)"
  using assms by (simp add: query2vector_def call_opt_def)

lemma demo_get_milvus_client:
  "get_milvus_client (demo_env n) demo_cfg demo_world
     = (demo_world\<lparr>milvus_client_instance := Some demo_client, clients_built := [demo_client]\<rparr>,
        Some demo_client)"
  by (simp add: get_milvus_client_def demo_env_def demo_cfg_def demo_world_def demo_client_def
      Let_def)

lemma demo_get_image_model:
  "get_image_model (demo_env n) demo_cfg (w\<lparr>image_model := None\<rparr>)
     = (w\<lparr>image_model := None, image_processor := Some (\<lambda>img. Inr (nat (fst (size_img img)))),
           image_tokenizer := Some (\<lambda>ts. Inr (length (concat ts))),
           image_model := Some demo_image_model\<rparr>,
        Inr (demo_image_model, Some (\<lambda>img. Inr (nat (fst (size_img img)))),
             Some (\<lambda>ts. Inr (length (concat ts)))))"
  by (simp add: get_image_model_def demo_env_def)

lemma demo_query2vector:
  "query2vector (demo_env n) demo_cfg [1, 2] (w\<lparr>image_model := None\<rparr>)
     = (w\<lparr>image_model := None, image_processor := Some (\<lambda>img. Inr (nat (fst (size_img img)))),
           image_tokenizer := Some (\<lambda>ts. Inr (length (concat ts))),
           image_model := Some demo_image_model\<rparr>,
        Inr [2, 1, 0])"
  by (simp add: query2vector_def demo_get_image_model call_opt_def demo_image_model_def)
     (simp add: demo_env_def)

text \<open>
  C3. The search tool encodes the query with \<open>query2vector\<close>, which is the image model's
  tokenizer followed by its text tower (\<open>get_text_features\<close>) and the normalisation, and
  hands exactly that vector to the store. The text model has no part in it: with any
  other text model loader and any other cached text model the tool answers the same, and
  it leaves the cached text model as it found it.
\<close>

theorem search_query_in_image_space:
  assumes "get_milvus_client env cfg w = (w1, Some cl)"
      and "get_image_model env cfg w1 = (w2, Inr (m, p, Some tk))"
      and "tk [q] = Inr x"
      and "get_text_features m x = Inr u"
      and "normalize env u = Inr v"
  shows "query2vector env cfg q w1 = (w2, Inr v)
       \<and> milvus_text_image_search env cfg q coll field limit ofs metric w
           = (w2, case search env cl coll [v] field limit \<lparr> metric_type = metric, nprobe = 10 \<rparr>
                         (output_fields_or_default ofs) of
                    Inr results \<Rightarrow> (case results of [] \<Rightarrow> [] | r # rs \<Rightarrow> map Hit r)
                  | Inl e \<Rightarrow> [ErrorDict (search_failed e)])
       \<and> milvus_text_image_search
             (env\<lparr>SentenceTransformer := ld, text_model_to_device := td\<rparr>) cfg
             q coll field limit ofs metric (w\<lparr>text_model := tm\<rparr>)
           = (case milvus_text_image_search env cfg q coll field limit ofs metric w of
                (w', r) \<Rightarrow> (w'\<lparr>text_model := tm\<rparr>, r))"
proof -
  have a: "query2vector env cfg q w1 = (w2, Inr v)"
    using query2vector_unfold [OF assms(2) assms(3) assms(4)] assms(5) by simp
  show ?thesis
    using a search_unfold [OF assms(1) a] search_text_model by blast
qed

theorem search_query_in_image_space_witness:
  "get_milvus_client (demo_env 0) demo_cfg demo_world
     = (demo_world\<lparr>milvus_client_instance := Some demo_client, clients_built := [demo_client]\<rparr>,
        Some demo_client)
   \<and> snd (milvus_text_image_search (demo_env 0) demo_cfg [1, 2] ''demo__attachments_image''
             ''vector'' 5 None ''COSINE'' demo_world)
       = [Hit demo_hit]"
proof -
  let ?w1 = "demo_world\<lparr>milvus_client_instance := Some demo_client, clients_built := [demo_client]\<rparr>"
  let ?p = "\<lambda>img. Inr (nat (fst (size_img img))) :: exception + nat"
  let ?tk = "\<lambda>ts. Inr (length (concat ts)) :: exception + nat"
  let ?w2 = "?w1\<lparr>image_model := None, image_processor := Some ?p, image_tokenizer := Some ?tk,
                image_model := Some demo_image_model\<rparr>"
  have h1: "get_milvus_client (demo_env 0) demo_cfg demo_world = (?w1, Some demo_client)"
    by (rule demo_get_milvus_client)
  have w1: "?w1 = ?w1\<lparr>image_model := None\<rparr>"
    by (simp add: demo_world_def)
  have h2: "get_image_model (demo_env 0) demo_cfg ?w1
              = (?w2, Inr (demo_image_model, Some ?p, Some ?tk))"
    using demo_get_image_model [of 0 ?w1] w1 by simp
  have h3: "?tk [[1, 2]] = Inr 2"
    by simp
  have h4: "get_text_features demo_image_model 2 = Inr [2, 1, 0]"
    by (simp add: demo_image_model_def)
  have h5: "normalize (demo_env 0) [2, 1, 0] = Inr [2, 1, 0]"
    by (simp add: demo_env_def)
  have s: "search (demo_env 0) demo_client ''demo__attachments_image'' [[2, 1, 0]] ''vector'' 5
             \<lparr> metric_type = ''COSINE'', nprobe = 10 \<rparr> (output_fields_or_default None)
           = Inr [[demo_hit]]"
    by (simp add: demo_env_def)
  show ?thesis
    using search_query_in_image_space [OF h1 h2 h3 h4 h5,
            of "''demo__attachments_image''" "''vector''" 5 None "''COSINE''"] h1 s
    by simp
qed

text \<open>
  C5. When the store answers a search with its fault, a \<open>MilvusException\<close> with a code
  and a message, as it does for a collection it does not know, the tool returns a list of
  one dictionary whose \<^verbatim>\<open>error\<close> text carries that code and that message. The tool
  returns a list on every path; no exception leaves it.
\<close>

theorem search_structured_error:
  assumes "get_milvus_client env cfg w = (w1, Some cl)"
      and "query2vector env cfg q w1 = (w2, Inr v)"
      and "search env cl coll [v] field limit \<lparr> metric_type = metric, nprobe = 10 \<rparr>
             (output_fields_or_default ofs) = Inl (MilvusException s code msg)"
  shows "milvus_text_image_search env cfg q coll field limit ofs metric w
         = (w2, [ErrorDict (''Milvus vector search failed: '' @ s @ '' (Code: '' @ str_int code
                              @ '', Message: '' @ msg @ '')'')])"
  using search_unfold [OF assms(1) assms(2)] assms(3) by simp

lemma str_int_100: "str_int 100 = ''100''"
  by code_simp

theorem search_structured_error_witness:
  "search (demo_env 0) demo_client ''nowhere'' [[2, 1, 0]] ''vector'' 5
       \<lparr> metric_type = ''COSINE'', nprobe = 10 \<rparr> (output_fields_or_default None)
     = Inl (MilvusException ''<MilvusException: (code=100, message=collection not found)>''
              100 ''collection not found'')
   \<and> snd (milvus_text_image_search (demo_env 0) demo_cfg [1, 2] ''nowhere'' ''vector'' 5 None
             ''COSINE'' demo_world)
       = [ErrorDict ''Milvus vector search failed: <MilvusException: (code=100, message=collection not found)> (Code: 100, Message: collection not found)'']"
proof -
  let ?w1 = "demo_world\<lparr>milvus_client_instance := Some demo_client, clients_built := [demo_client]\<rparr>"
  have w1: "?w1 = ?w1\<lparr>image_model := None\<rparr>"
    by (simp add: demo_world_def)
  have h1: "get_milvus_client (demo_env 0) demo_cfg demo_world = (?w1, Some demo_client)"
    by (rule demo_get_milvus_client)
  have h2: "query2vector (demo_env 0) demo_cfg [1, 2] ?w1
              = (?w1\<lparr>image_model := None,
                      image_processor := Some (\<lambda>img. Inr (nat (fst (size_img img)))),
                      image_tokenizer := Some (\<lambda>ts. Inr (length (concat ts))),
                      image_model := Some demo_image_model\<rparr>, Inr [2, 1, 0])"
    using demo_query2vector [of 0 ?w1] w1 by simp
  have h3: "search (demo_env 0) demo_client ''nowhere'' [[2, 1, 0]] ''vector'' 5
              \<lparr> metric_type = ''COSINE'', nprobe = 10 \<rparr> (output_fields_or_default None)
            = Inl (MilvusException ''<MilvusException: (code=100, message=collection not found)>''
                     100 ''collection not found'')"
    by (simp add: demo_env_def demo_fault_def)
  show ?thesis
    using search_structured_error [OF h1 h2 h3] h3 str_int_100 by simp
qed

section \<open>Properties of the ingestion\<close>

subsection \<open>What every step keeps\<close>

lemma keeps_refl: "keeps w w"
  by (simp add: keeps_def)

lemma keeps_trans: "keeps w w1 \<Longrightarrow> keeps w1 w2 \<Longrightarrow> keeps w w2"
  by (simp add: keeps_def)

lemma keeps_logger_call: "logger_call level lg msg w = (w', r) \<Longrightarrow> keeps w w'"
  by (auto simp: keeps_def logger_call_def split: option.splits)

lemma keeps_get_text_model: "get_text_model env cfg w = (w', r) \<Longrightarrow> keeps w w'"
  by (auto simp: keeps_def get_text_model_def split: option.splits sum.splits)

lemma keeps_get_image_model: "get_image_model env cfg w = (w', r) \<Longrightarrow> keeps w w'"
  by (auto simp: keeps_def get_image_model_def split: option.splits sum.splits)

lemma keeps_text2vector: "text2vector env cfg t w = (w', r) \<Longrightarrow> keeps w w'"
  by (auto simp: text2vector_def split: prod.splits sum.splits dest: keeps_get_text_model)

lemma keeps_image2vector: "image2vector env cfg p fi w = (w', r) \<Longrightarrow> keeps w w'"
  by (auto simp: image2vector_def split: prod.splits sum.splits dest: keeps_get_image_model)

lemma keeps_get_embedding_dimensions:
  "get_embedding_dimensions env cfg w = (w', r) \<Longrightarrow> keeps w w'"
  by (auto simp: get_embedding_dimensions_def split: prod.splits sum.splits
           dest!: keeps_get_text_model keeps_get_image_model intro: keeps_trans)

lemma has_client_create_collection:
  "client_create_collection env st name dim = (st', r) \<Longrightarrow> has_collection st x
     \<Longrightarrow> has_collection st' x"
  by (auto simp: has_collection_def client_create_collection_def Let_def
           split: option.splits if_splits)

lemma has_client_insert:
  "client_insert env st name rows = (st', r) \<Longrightarrow> has_collection st x \<Longrightarrow> has_collection st' x"
  by (auto simp: has_collection_def client_insert_def Let_def split: option.splits if_splits)

lemma has_client_flush:
  "client_flush env st name = (st', r) \<Longrightarrow> has_collection st x \<Longrightarrow> has_collection st' x"
  by (auto simp: has_collection_def client_flush_def Let_def split: option.splits)

lemma keeps_on_store:
  assumes "on_store w m = (w', r)"
      and "\<And>x. has_collection (milvus w) x \<Longrightarrow> has_collection (fst m) x"
  shows "keeps w w'"
  using assms by (auto simp: on_store_def keeps_def split: prod.splits)

lemma keeps_create_collection: "create_collection env name dim lg w = (w', r) \<Longrightarrow> keeps w w'"
  by (auto simp: create_collection_def and_then_def on_store_def keeps_def logger_call_def
           split: prod.splits sum.splits option.splits if_splits
           dest: has_client_create_collection)

lemma keeps_embed_image_file:
  "embed_image_file env cfg p st = (st', r) \<Longrightarrow> keeps (wld st) (wld st')"
  by (auto simp: embed_image_file_def split: prod.splits sum.splits option.splits
           dest: keeps_image2vector)

lemma keeps_embed_text_file:
  "embed_text_file env cfg p st = (st', r) \<Longrightarrow> keeps (wld st) (wld st')"
  by (auto simp: embed_text_file_def Let_def keeps_refl split: prod.splits sum.splits
           dest: keeps_text2vector)

lemma keeps_embed_file: "embed_file env cfg p st = (st', r) \<Longrightarrow> keeps (wld st) (wld st')"
  by (auto simp: embed_file_def keeps_refl split: if_splits
           dest: keeps_embed_image_file keeps_embed_text_file)

lemma keeps_process_file:
  "process_file env cfg lg p st = (st', r) \<Longrightarrow> keeps (wld st) (wld st')"
  by (auto simp: process_file_def on_world_def split: prod.splits sum.splits
           dest!: keeps_embed_file keeps_logger_call intro: keeps_trans)

lemma keeps_flush_img: "flush_img env cfg st = (st', r) \<Longrightarrow> keeps (wld st) (wld st')"
  by (auto simp: flush_img_def keeps_def Let_def split: prod.splits sum.splits if_splits
           dest: has_client_insert)

lemma keeps_flush_txt: "flush_txt env cfg st = (st', r) \<Longrightarrow> keeps (wld st) (wld st')"
  by (auto simp: flush_txt_def keeps_def Let_def split: prod.splits sum.splits if_splits
           dest: has_client_insert)

lemma and_then_cases:
  assumes "and_then m k = (s', r)"
  obtains (raised) s e where "m = (s, Inl e)" and "s' = s" and "r = Inl e"
        | (went_on) s x where "m = (s, Inr x)" and "k s x = (s', r)"
  using assms by (auto simp: and_then_def split: prod.splits sum.splits)

lemma keeps_ingest_files:
  "ingest_files env cfg lg files st = (st', r) \<Longrightarrow> keeps (wld st) (wld st')"
proof (induction files arbitrary: st)
  case Nil
  then show ?case by (simp add: keeps_refl)
next
  case (Cons f fs)
  from Cons.prems have step:
    "and_then (process_file env cfg lg f st)
       (\<lambda>st1 u. and_then (if length (img_vector st1) \<ge> BATCH_SIZE then flush_img env cfg st1
                           else (st1, Inr ()))
          (\<lambda>st2 u. and_then (if length (txt_vector st2) \<ge> BATCH_SIZE then flush_txt env cfg st2
                              else (st2, Inr ()))
             (\<lambda>st3 u. ingest_files env cfg lg fs st3))) = (st', r)"
    by simp
  from step show ?case
  proof (cases rule: and_then_cases)
    case (raised s e)
    then show ?thesis using keeps_process_file by blast
  next
    case (went_on s1 x)
    have k1: "keeps (wld st) (wld s1)" using went_on(1) by (rule keeps_process_file)
    from went_on(2) show ?thesis
    proof (cases rule: and_then_cases)
      case (raised s e)
      then have "keeps (wld s1) (wld st')"
        by (auto simp: keeps_refl split: if_splits dest: keeps_flush_img)
      with k1 show ?thesis by (rule keeps_trans)
    next
      case (went_on s2 y)
      then have k2: "keeps (wld s1) (wld s2)"
        by (auto simp: keeps_refl split: if_splits dest: keeps_flush_img)
      from went_on(2) show ?thesis
      proof (cases rule: and_then_cases)
        case (raised s e)
        then have "keeps (wld s2) (wld st')"
          by (auto simp: keeps_refl split: if_splits dest: keeps_flush_txt)
        with k1 k2 show ?thesis by (blast intro: keeps_trans)
      next
        case (went_on s3 z)
        then have k3: "keeps (wld s2) (wld s3)"
          by (auto simp: keeps_refl split: if_splits dest: keeps_flush_txt)
        have k4: "keeps (wld s3) (wld st')" using went_on(2) by (rule Cons.IH)
        from k1 k2 k3 k4 show ?thesis by (blast intro: keeps_trans)
      qed
    qed
  qed
qed

lemma keeps_walk_and_drain:
  "walk_and_drain env cfg lg files st = (st', r) \<Longrightarrow> keeps (wld st) (wld st')"
  unfolding walk_and_drain_def
proof (erule and_then_cases, goal_cases)
  case (1 s e)
  then show ?case using keeps_ingest_files by blast
next
  case (2 s1 x)
  have k1: "keeps (wld st) (wld s1)" using 2(1) by (rule keeps_ingest_files)
  from 2(2) show ?case
  proof (cases rule: and_then_cases)
    case (raised s e)
    have "keeps (wld s1) (wld st')" using raised(1) raised(2) keeps_flush_img by blast
    with k1 show ?thesis by (rule keeps_trans)
  next
    case (went_on s2 y)
    have k2: "keeps (wld s1) (wld s2)" using went_on(1) by (rule keeps_flush_img)
    have k3: "keeps (wld s2) (wld st')" using went_on(2) by (rule keeps_flush_txt)
    from k1 k2 k3 show ?thesis by (blast intro: keeps_trans)
  qed
qed

lemma keeps_commit_and_report:
  "commit_and_report env cfg lg w = (w', r) \<Longrightarrow> keeps w w'"
  by (auto simp: commit_and_report_def and_then_def on_store_def keeps_def logger_call_def
                 client_flush_def Let_def has_collection_def
           split: prod.splits sum.splits option.splits if_splits)

lemma create_collection_has:
  "create_collection env name dim lg w = (w', Inr u) \<Longrightarrow> has_collection (milvus w') name"
  by (auto simp: create_collection_def and_then_def on_store_def logger_call_def
                 client_create_collection_def Let_def has_collection_def
           split: prod.splits sum.splits option.splits if_splits)

lemma keeps_has: "keeps w w' \<Longrightarrow> has_collection (milvus w) x \<Longrightarrow> has_collection (milvus w') x"
  by (simp add: keeps_def)

lemma embed_and_upload_cases:
  assumes "embed_and_upload env cfg lg w0 = (w', r)"
  obtains (no_dimensions) e where "get_embedding_dimensions env cfg w0 = (w', Inl e)" and "r = Inl e"
  | (no_image_collection) w1 dt di e where
      "get_embedding_dimensions env cfg w0 = (w1, Inr (dt, di))"
      and "create_collection env (IMAGE_COLL cfg) di lg w1 = (w', Inl e)" and "r = Inl e"
  | (no_text_collection) w1 dt di w2 e where
      "get_embedding_dimensions env cfg w0 = (w1, Inr (dt, di))"
      and "create_collection env (IMAGE_COLL cfg) di lg w1 = (w2, Inr ())"
      and "create_collection env (TEXT_COLL cfg) dt lg w2 = (w', Inl e)" and "r = Inl e"
  | (walk_raised) w1 dt di w2 w3 st3 e where
      "get_embedding_dimensions env cfg w0 = (w1, Inr (dt, di))"
      and "create_collection env (IMAGE_COLL cfg) di lg w1 = (w2, Inr ())"
      and "create_collection env (TEXT_COLL cfg) dt lg w2 = (w3, Inr ())"
      and "walk_and_drain env cfg lg
             (filter (is_file env) (rglob env (get_path_attached_artifact_dir cfg)))
             \<lparr> wld = w3, img_vector = [], img_path = [],
               txt_vector = [], txt_path = [], txt_content = [] \<rparr> = (st3, Inl e)"
      and "w' = wld st3" and "r = Inl e"
  | (walked) w1 dt di w2 w3 st3 where
      "get_embedding_dimensions env cfg w0 = (w1, Inr (dt, di))"
      and "create_collection env (IMAGE_COLL cfg) di lg w1 = (w2, Inr ())"
      and "create_collection env (TEXT_COLL cfg) dt lg w2 = (w3, Inr ())"
      and "walk_and_drain env cfg lg
             (filter (is_file env) (rglob env (get_path_attached_artifact_dir cfg)))
             \<lparr> wld = w3, img_vector = [], img_path = [],
               txt_vector = [], txt_path = [], txt_content = [] \<rparr> = (st3, Inr ())"
      and "commit_and_report env cfg lg (wld st3) = (w', r)"
  using assms
  by (auto simp: embed_and_upload_def and_then_def Let_def split: prod.splits sum.splits)

lemma keeps_embed_and_upload:
  assumes "embed_and_upload env cfg lg w0 = (w', r)"
  shows "keeps w0 w'"
  using assms
proof (cases rule: embed_and_upload_cases)
  case (no_dimensions e)
  then show ?thesis using keeps_get_embedding_dimensions by blast
next
  case (no_image_collection w1 dt di e)
  have "keeps w0 w1" using no_image_collection(1) by (rule keeps_get_embedding_dimensions)
  moreover have "keeps w1 w'" using no_image_collection(2) by (rule keeps_create_collection)
  ultimately show ?thesis by (rule keeps_trans)
next
  case (no_text_collection w1 dt di w2 e)
  have "keeps w0 w1" using no_text_collection(1) by (rule keeps_get_embedding_dimensions)
  moreover have "keeps w1 w2" using no_text_collection(2) by (rule keeps_create_collection)
  moreover have "keeps w2 w'" using no_text_collection(3) by (rule keeps_create_collection)
  ultimately show ?thesis by (blast intro: keeps_trans)
next
  case (walk_raised w1 dt di w2 w3 st3 e)
  have "keeps w0 w1" using walk_raised(1) by (rule keeps_get_embedding_dimensions)
  moreover have "keeps w1 w2" using walk_raised(2) by (rule keeps_create_collection)
  moreover have "keeps w2 w3" using walk_raised(3) by (rule keeps_create_collection)
  moreover have "keeps w3 (wld st3)" using keeps_walk_and_drain [OF walk_raised(4)] by simp
  ultimately show ?thesis using walk_raised(5) by (blast intro: keeps_trans)
next
  case (walked w1 dt di w2 w3 st3)
  have "keeps w0 w1" using walked(1) by (rule keeps_get_embedding_dimensions)
  moreover have "keeps w1 w2" using walked(2) by (rule keeps_create_collection)
  moreover have "keeps w2 w3" using walked(3) by (rule keeps_create_collection)
  moreover have "keeps w3 (wld st3)" using keeps_walk_and_drain [OF walked(4)] by simp
  moreover have "keeps (wld st3) w'" using walked(5) by (rule keeps_commit_and_report)
  ultimately show ?thesis by (blast intro: keeps_trans)
qed

lemma embed_and_upload_has_both:
  assumes "embed_and_upload env cfg lg w0 = (w', Inr ())"
  shows "has_collection (milvus w') (IMAGE_COLL cfg) \<and> has_collection (milvus w') (TEXT_COLL cfg)"
  using assms
proof (cases rule: embed_and_upload_cases)
  case (walked w1 dt di w2 w3 st3)
  have i2: "has_collection (milvus w2) (IMAGE_COLL cfg)"
    using walked(2) by (rule create_collection_has)
  have k23: "keeps w2 w3" using walked(3) by (rule keeps_create_collection)
  have t3: "has_collection (milvus w3) (TEXT_COLL cfg)"
    using walked(3) by (rule create_collection_has)
  have k3: "keeps w3 (wld st3)" using keeps_walk_and_drain [OF walked(4)] by simp
  have k4: "keeps (wld st3) w'" using walked(5) by (rule keeps_commit_and_report)
  have k: "keeps w3 w'" using k3 k4 by (rule keeps_trans)
  show ?thesis
    using keeps_has [OF k t3] keeps_has [OF k keeps_has [OF k23 i2]] by simp
qed simp_all

lemma preprocess_has_both:
  assumes "preprocess_data_to_milvus env cfg lg w = (w', Inr ())"
  shows "has_collection (milvus w') (IMAGE_COLL cfg) \<and> has_collection (milvus w') (TEXT_COLL cfg)"
proof (cases "has_collection (milvus w) (IMAGE_COLL cfg) \<and> has_collection (milvus w) (TEXT_COLL cfg)")
  case True
  then show ?thesis
    using assms
    by (auto simp: preprocess_data_to_milvus_def Let_def logger_call_def
             split: sum.splits option.splits)
next
  case False
  then have "\<exists>w0. embed_and_upload env cfg lg w0 = (w', Inr ())"
    using assms
    by (auto simp: preprocess_data_to_milvus_def Let_def split: sum.splits)
  then show ?thesis using embed_and_upload_has_both by blast
qed

lemma preprocess_clients:
  assumes "preprocess_data_to_milvus env cfg lg w = (w', r)"
  shows "milvus_client_instance w' = milvus_client_instance w
       \<and> clients_built w' =
           (case MilvusClient_init env (ingestion_client cfg) of
              Inl e \<Rightarrow> clients_built w
            | Inr u \<Rightarrow> clients_built w @ [ingestion_client cfg])"
proof (cases "MilvusClient_init env (ingestion_client cfg)")
  case (Inl e)
  then have "w' = w"
    using assms by (auto simp: preprocess_data_to_milvus_def ingestion_client_def)
  then show ?thesis using Inl by simp
next
  case (Inr u)
  let ?w0 = "w\<lparr>clients_built := clients_built w @ [ingestion_client cfg]\<rparr>"
  have "keeps ?w0 w'"
  proof (cases "has_collection (milvus w) (IMAGE_COLL cfg) \<and> has_collection (milvus w) (TEXT_COLL cfg)")
    case True
    then have "logger_call ''info'' lg
                 ''Both collections already exist, skipping data processing'' ?w0 = (w', r)"
      using assms Inr by (simp add: preprocess_data_to_milvus_def ingestion_client_def)
    then show ?thesis by (rule keeps_logger_call)
  next
    case False
    then have "embed_and_upload env cfg lg ?w0 = (w', r)"
      using assms Inr by (auto simp: preprocess_data_to_milvus_def ingestion_client_def)
    then show ?thesis by (rule keeps_embed_and_upload)
  qed
  then show ?thesis using Inr by (simp add: keeps_def)
qed

subsection \<open>Evaluation of the small case\<close>

lemmas run_defs =
  preprocess_data_to_milvus_def embed_and_upload_def walk_and_drain_def commit_and_report_def
  and_then_def on_store_def on_world_def logger_call_def create_collection_def
  client_create_collection_def client_insert_def client_flush_def row_count_def has_collection_def
  get_embedding_dimensions_def get_text_model_def get_image_model_def call_opt_def
  text2vector_def image2vector_def process_file_def embed_file_def embed_text_file_def
  embed_image_file_def flush_img_def flush_txt_def IMAGE_COLL_def TEXT_COLL_def BATCH_SIZE_def
  get_path_attached_artifact_dir_def get_default_def Let_def

lemma demo_env_fields:
  "SentenceTransformer (demo_env n) = (\<lambda>name. Inr demo_text_model)"
  "text_model_to_device (demo_env n) = Inr ()"
  "AutoProcessor_from_pretrained (demo_env n) = (\<lambda>name. Inr (\<lambda>img. Inr (nat (fst (size_img img)))))"
  "AutoTokenizer_from_pretrained (demo_env n) = (\<lambda>name. Inr (\<lambda>ts. Inr (length (concat ts))))"
  "AutoModel_from_pretrained (demo_env n) = (\<lambda>name. Inr demo_image_model)"
  "normalize (demo_env n) = (\<lambda>v. Inr v)"
  "Image_open_convert_RGB (demo_env n) = (\<lambda>p. Inr flat_icon)"
  "getsize (demo_env n) = (\<lambda>p. 50000)"
  "rglob (demo_env n) = (\<lambda>root. map demo_file [0..<n])"
  "is_file (demo_env n) = (\<lambda>p. True)"
  "read_text (demo_env n) = (\<lambda>p. Inr [104, 105])"
  "abspath (demo_env n) = (\<lambda>p. p)"
  "exists_path (demo_env n) = (\<lambda>p. True)"
  "MilvusClient_init (demo_env n) = (\<lambda>c. Inr ())"
  "list_collections (demo_env n) = (\<lambda>c. Inr [])"
  "store_error (demo_env n) = (\<lambda>name. demo_fault)"
  by (simp_all add: demo_env_def)

lemmas demo_defs =
  demo_env_fields demo_cfg_def demo_world_def demo_text_model_def demo_image_model_def
  dummy_image_def

lemma demo_file_0: "demo_file 0 = \<lparr> str_path = ''case/note0.txt'', suffix = ''.txt'' \<rparr>"
  by code_simp

lemma lower_txt: "lower ''.txt'' = ''.txt''"
  by code_simp

lemma str_int_0: "str_int 0 = ''0''" by code_simp
lemma str_int_1: "str_int 1 = ''1''" by code_simp

lemma demo_metadata_0:
  "get_all_metadata (demo_env n) ''case/note0.txt''
     = ''Error extracting metadata for '' @ quoted ''case/note0.txt'' @ '': file is damaged''"
  by (simp add: get_all_metadata_def demo_env_def extraction_error_def)

lemma demo_run_1_result:
  "snd (preprocess_data_to_milvus (demo_env 1) demo_cfg (Some (Logger ''ingest'')) demo_world) = Inr ()"
  by (simp add: run_defs demo_defs demo_file_0 lower_txt str_int_0 str_int_1)

lemma demo_run_1_rows:
  "rows_of (fst (preprocess_data_to_milvus (demo_env 1) demo_cfg (Some (Logger ''ingest'')) demo_world))
     (TEXT_COLL demo_cfg)
   = [\<lparr> vector = [2, 1], path = ''case/note0.txt'', modality = ''text'', content = [104, 105],
        metadata = ''Error extracting metadata for '' @ quoted ''case/note0.txt'' @ '': file is damaged'' \<rparr>]"
  by (simp add: run_defs demo_defs demo_file_0 lower_txt str_int_0 str_int_1 rows_of_def
        demo_metadata_0)

lemma demo_run_1_logged:
  "logged (fst (preprocess_data_to_milvus (demo_env 1) demo_cfg (Some (Logger ''ingest'')) demo_world))
   = [(''info'', ''Creating collection demo__attachments_image''),
      (''info'', ''Creating collection demo__attachments_text''),
      (''info'', ''Done. Image entities: 0, Text entities: 1'')]"
  by (simp add: run_defs demo_defs demo_file_0 lower_txt str_int_0 str_int_1)

subsection \<open>A walk over text files\<close>

lemma text_not_image: "text_suffixed p \<Longrightarrow> \<not> image_suffixed p"
  by (auto simp: text_suffixed_def image_suffixed_def)

lemma text2vector_cached:
  "text_model w = Some m \<Longrightarrow> text2vector env cfg t w = (w, encode m (take 500 t))"
  by (simp add: text2vector_def get_text_model_def)

lemma process_file_eligible:
  assumes "text_model (wld st) = Some m" and "eligible_text env m p"
  shows "\<exists>v t. process_file env cfg lg p st
           = (st\<lparr>txt_vector := txt_vector st @ [v], txt_path := txt_path st @ [str_path p],
                 txt_content := txt_content st @ [t]\<rparr>, Inr ())"
proof -
  from assms(2) obtain t v where t: "read_text env p = Inr t" and v: "encode m (take 500 t) = Inr v"
    and s: "text_suffixed p"
    by (auto simp: eligible_text_def split: sum.splits)
  have ni: "\<not> image_suffixed p" using s by (rule text_not_image)
  have "process_file env cfg lg p st
          = (st\<lparr>txt_vector := txt_vector st @ [v], txt_path := txt_path st @ [str_path p],
                txt_content := txt_content st @ [take 500 t]\<rparr>, Inr ())"
    using s ni t v text2vector_cached [OF assms(1), of env cfg "take 500 t"]
    by (simp add: process_file_def embed_file_def embed_text_file_def text_suffixed_def
          image_suffixed_def)
  then show ?thesis by blast
qed

lemma process_file_other:
  assumes "\<not> image_suffixed p" and "\<not> text_suffixed p"
  shows "process_file env cfg lg p st = (st, Inr ())"
  using assms
  by (simp add: process_file_def embed_file_def text_suffixed_def image_suffixed_def)

lemma process_file_failed_text:
  assumes "text_model (wld st) = Some m" and "text_suffixed p" and "\<not> eligible_text env m p"
  shows "\<exists>msg. process_file env cfg (Some l) p st
           = (st\<lparr>wld := (wld st)\<lparr>logged := logged (wld st) @ [(''error'', msg)]\<rparr>\<rparr>, Inr ())"
proof -
  have ni: "\<not> image_suffixed p" using assms(2) by (rule text_not_image)
  have "\<exists>e. embed_file env cfg p st = (st, Inl e)"
  proof (cases "read_text env p")
    case (Inl e)
    then show ?thesis
      using assms(2) ni
      by (simp add: embed_file_def embed_text_file_def text_suffixed_def image_suffixed_def)
  next
    case (Inr t)
    then obtain e where "encode m (take 500 t) = Inl e"
      using assms(2,3) by (auto simp: eligible_text_def split: sum.splits)
    then show ?thesis
      using assms(2) ni Inr text2vector_cached [OF assms(1), of env cfg "take 500 t"]
      by (simp add: embed_file_def embed_text_file_def text_suffixed_def image_suffixed_def)
  qed
  then show ?thesis
    by (auto simp: process_file_def on_world_def logger_call_def)
qed

lemma flush_txt_present:
  assumes "collections (milvus (wld st)) (TEXT_COLL cfg) = Some c" and "txt_vector st \<noteq> []"
  shows "flush_txt env cfg st
         = (st\<lparr>wld := (wld st)\<lparr>milvus := (milvus (wld st))
                    \<lparr>calls := calls (milvus (wld st))
                               @ [Insert (TEXT_COLL cfg)
                                    (length (zip (txt_vector st) (zip (txt_path st) (txt_content st))))],
                     collections := (collections (milvus (wld st)))(TEXT_COLL cfg \<mapsto>
                        c\<lparr>entities := entities c
                             @ map (\<lambda>(v, p, c). \<lparr> vector = v, path = p, modality = ''text'',
                                       content = c, metadata = get_all_metadata env p \<rparr>)
                                 (zip (txt_vector st) (zip (txt_path st) (txt_content st)))\<rparr>)\<rparr>\<rparr>,
               txt_vector := [], txt_path := [], txt_content := []\<rparr>, Inr ())"
  using assms by (simp add: flush_txt_def client_insert_def Let_def)

lemma map_path_rows:
  "length ps = length vs \<Longrightarrow> length cs = length vs \<Longrightarrow>
   map path (map (\<lambda>(v, p, c). \<lparr> vector = v, path = p, modality = md, content = c,
                               metadata = f p \<rparr>) (zip vs (zip ps cs))) = ps"
proof (induction vs arbitrary: ps cs)
  case Nil
  then show ?case by simp
next
  case (Cons v vs)
  then obtain p ps' c cs' where "ps = p # ps'" and "cs = c # cs'"
    by (cases ps; cases cs) auto
  with Cons show ?case by simp
qed

lemma walk_step:
  assumes inv: "text_walk cfg m st"
      and ni: "\<not> image_suffixed f"
      and ok: "lg \<noteq> None \<or> (text_suffixed f \<longrightarrow> eligible_text env m f)"
  shows "\<exists>st1. ingest_files env cfg lg (f # fs) st = ingest_files env cfg lg fs st1
           \<and> text_walk cfg m st1
           \<and> calls (milvus (wld st1))
               = calls (milvus (wld st))
                 @ (if eligible_text env m f \<and> Suc (length (txt_vector st)) = BATCH_SIZE
                    then [Insert (TEXT_COLL cfg) BATCH_SIZE] else [])
           \<and> length (txt_vector st1)
               = (if eligible_text env m f then Suc (length (txt_vector st)) mod BATCH_SIZE
                  else length (txt_vector st))
           \<and> text_paths cfg st1
               = text_paths cfg st @ (if eligible_text env m f then [str_path f] else [])"
  (is "\<exists>st1. ?Q st1")
proof (cases "eligible_text env m f")
  case True
  from inv have tm: "text_model (wld st) = Some m" by (simp add: text_walk_def)
  from process_file_eligible [OF tm True] obtain v t where
    pf: "process_file env cfg lg f st
           = (st\<lparr>txt_vector := txt_vector st @ [v], txt_path := txt_path st @ [str_path f],
                 txt_content := txt_content st @ [t]\<rparr>, Inr ())"
    by blast
  let ?sa = "st\<lparr>txt_vector := txt_vector st @ [v], txt_path := txt_path st @ [str_path f],
                 txt_content := txt_content st @ [t]\<rparr>"
  show ?thesis
  proof (cases "Suc (length (txt_vector st)) = BATCH_SIZE")
    case full: True
    from inv obtain c where c: "collections (milvus (wld st)) (TEXT_COLL cfg) = Some c"
      by (auto simp: text_walk_def has_collection_def)
    have ca: "collections (milvus (wld ?sa)) (TEXT_COLL cfg) = Some c" using c by simp
    have ne: "txt_vector ?sa \<noteq> []" by simp
    note fl = flush_txt_present [OF ca ne, of env]
    let ?rows = "map (\<lambda>(v, p, c). \<lparr> vector = v, path = p, modality = ''text'',
                                       content = c, metadata = get_all_metadata env p \<rparr>)
                   (zip (txt_vector ?sa) (zip (txt_path ?sa) (txt_content ?sa)))"
    let ?s1 = "?sa\<lparr>wld := (wld ?sa)\<lparr>milvus := (milvus (wld ?sa))
                    \<lparr>calls := calls (milvus (wld ?sa))
                               @ [Insert (TEXT_COLL cfg)
                                    (length (zip (txt_vector ?sa) (zip (txt_path ?sa) (txt_content ?sa))))],
                     collections := (collections (milvus (wld ?sa)))(TEXT_COLL cfg \<mapsto>
                        c\<lparr>entities := entities c @ ?rows\<rparr>)\<rparr>\<rparr>,
               txt_vector := [], txt_path := [], txt_content := []\<rparr>"
    have lens: "length (txt_path ?sa) = length (txt_vector ?sa)"
               "length (txt_content ?sa) = length (txt_vector ?sa)"
      using inv by (simp_all add: text_walk_def)
    have mp: "map path ?rows = txt_path ?sa"
      using lens by (rule map_path_rows)
    have step: "ingest_files env cfg lg (f # fs) st = ingest_files env cfg lg fs ?s1"
      using pf fl full inv by (simp add: and_then_def text_walk_def)
    have inv1: "text_walk cfg m ?s1"
      using inv by (simp add: text_walk_def has_collection_def BATCH_SIZE_def)
    have calls1: "calls (milvus (wld ?s1)) = calls (milvus (wld st)) @ [Insert (TEXT_COLL cfg) BATCH_SIZE]"
      using full inv by (simp add: text_walk_def)
    have len1: "length (txt_vector ?s1) = Suc (length (txt_vector st)) mod BATCH_SIZE"
      using full by simp
    have paths1: "text_paths cfg ?s1 = text_paths cfg st @ [str_path f]"
      using c mp by (simp add: text_paths_def rows_of_def)
    have concl: "?Q ?s1"
      using step inv1 calls1 len1 paths1 True full by simp
    show ?thesis by (rule exI [of _ ?s1]) (rule concl)
  next
    case notfull: False
    have lt: "Suc (length (txt_vector st)) < BATCH_SIZE"
      using inv notfull by (simp add: text_walk_def)
    have step: "ingest_files env cfg lg (f # fs) st = ingest_files env cfg lg fs ?sa"
      using pf lt inv by (simp add: and_then_def text_walk_def BATCH_SIZE_def)
    have inv1: "text_walk cfg m ?sa"
      using inv lt by (simp add: text_walk_def)
    have len1: "length (txt_vector ?sa) = Suc (length (txt_vector st)) mod BATCH_SIZE"
      using lt by simp
    have paths1: "text_paths cfg ?sa = text_paths cfg st @ [str_path f]"
      by (simp add: text_paths_def rows_of_def)
    have calls1: "calls (milvus (wld ?sa)) = calls (milvus (wld st))" by simp
    have concl: "?Q ?sa"
      using step inv1 calls1 len1 paths1 True notfull by simp
    show ?thesis by (rule exI [of _ ?sa]) (rule concl)
  qed
next
  case False
  have lt: "length (txt_vector st) < BATCH_SIZE" "img_vector st = []"
    using inv by (simp_all add: text_walk_def)
  show ?thesis
  proof (cases "text_suffixed f")
    case True
    then obtain l where l: "lg = Some l" using ok False by auto
    from inv have tm: "text_model (wld st) = Some m" by (simp add: text_walk_def)
    from process_file_failed_text [OF tm True False] obtain msg where
      pf: "process_file env cfg (Some l) f st
           = (st\<lparr>wld := (wld st)\<lparr>logged := logged (wld st) @ [(''error'', msg)]\<rparr>\<rparr>, Inr ())"
      by blast
    let ?s1 = "st\<lparr>wld := (wld st)\<lparr>logged := logged (wld st) @ [(''error'', msg)]\<rparr>\<rparr>"
    have step: "ingest_files env cfg lg (f # fs) st = ingest_files env cfg lg fs ?s1"
      using pf l lt by (simp add: and_then_def BATCH_SIZE_def)
    have inv1: "text_walk cfg m ?s1"
      using inv by (simp add: text_walk_def)
    have paths1: "text_paths cfg ?s1 = text_paths cfg st"
      by (simp add: text_paths_def rows_of_def)
    have concl: "?Q ?s1"
      using step inv1 paths1 False by simp
    show ?thesis by (rule exI [of _ ?s1]) (rule concl)
  next
    case nt: False
    have pf: "process_file env cfg lg f st = (st, Inr ())"
      using ni nt by (rule process_file_other)
    have step: "ingest_files env cfg lg (f # fs) st = ingest_files env cfg lg fs st"
      using pf lt by (simp add: and_then_def BATCH_SIZE_def)
    have concl: "?Q st"
      using step inv False by simp
    show ?thesis by (rule exI [of _ st]) (rule concl)
  qed
qed

lemma batch_arith:
  assumes "k < BATCH_SIZE"
  shows "(if Suc k = BATCH_SIZE then [x] else []) @ replicate ((Suc k mod BATCH_SIZE + n) div BATCH_SIZE) x
           = replicate ((k + Suc n) div BATCH_SIZE) x"
    and "(Suc k mod BATCH_SIZE + n) mod BATCH_SIZE = (k + Suc n) mod BATCH_SIZE"
proof -
  show "(if Suc k = BATCH_SIZE then [x] else []) @ replicate ((Suc k mod BATCH_SIZE + n) div BATCH_SIZE) x
           = replicate ((k + Suc n) div BATCH_SIZE) x"
  proof (cases "Suc k = BATCH_SIZE")
    case True
    then have "k + Suc n = n + BATCH_SIZE" by simp
    then have "(k + Suc n) div BATCH_SIZE = Suc (n div BATCH_SIZE)"
      by (simp add: BATCH_SIZE_def)
    then show ?thesis using True by simp
  next
    case False
    then have "Suc k < BATCH_SIZE" using assms by simp
    then show ?thesis using False by simp
  qed
  show "(Suc k mod BATCH_SIZE + n) mod BATCH_SIZE = (k + Suc n) mod BATCH_SIZE"
    by (simp add: mod_add_left_eq)
qed

lemma walk_text_files:
  assumes "text_walk cfg m st"
      and "\<forall>p\<in>set files. \<not> image_suffixed p"
      and "lg \<noteq> None \<or> (\<forall>p\<in>set files. text_suffixed p \<longrightarrow> eligible_text env m p)"
  shows "\<exists>st'. ingest_files env cfg lg files st = (st', Inr ())
           \<and> text_walk cfg m st'
           \<and> calls (milvus (wld st'))
               = calls (milvus (wld st))
                 @ replicate ((length (txt_vector st) + length (filter (eligible_text env m) files))
                               div BATCH_SIZE) (Insert (TEXT_COLL cfg) BATCH_SIZE)
           \<and> length (txt_vector st')
               = (length (txt_vector st) + length (filter (eligible_text env m) files)) mod BATCH_SIZE
           \<and> text_paths cfg st'
               = text_paths cfg st @ map str_path (filter (eligible_text env m) files)"
  using assms
proof (induction files arbitrary: st)
  case Nil
  then show ?case by (simp add: text_walk_def)
next
  case (Cons f fs)
  have ni: "\<not> image_suffixed f" using Cons.prems(2) by simp
  have ok: "lg \<noteq> None \<or> (text_suffixed f \<longrightarrow> eligible_text env m f)"
    using Cons.prems(3) by auto
  from walk_step [OF Cons.prems(1) ni ok, of fs] obtain st1 where
    step: "ingest_files env cfg lg (f # fs) st = ingest_files env cfg lg fs st1"
    and inv1: "text_walk cfg m st1"
    and calls1: "calls (milvus (wld st1))
               = calls (milvus (wld st))
                 @ (if eligible_text env m f \<and> Suc (length (txt_vector st)) = BATCH_SIZE
                    then [Insert (TEXT_COLL cfg) BATCH_SIZE] else [])"
    and len1: "length (txt_vector st1)
               = (if eligible_text env m f then Suc (length (txt_vector st)) mod BATCH_SIZE
                  else length (txt_vector st))"
    and paths1: "text_paths cfg st1
               = text_paths cfg st @ (if eligible_text env m f then [str_path f] else [])"
    by blast
  have p2: "\<forall>p\<in>set fs. \<not> image_suffixed p" using Cons.prems(2) by simp
  have p3: "lg \<noteq> None \<or> (\<forall>p\<in>set fs. text_suffixed p \<longrightarrow> eligible_text env m p)"
    using Cons.prems(3) by auto
  from Cons.IH [OF inv1 p2 p3] obtain st' where
    run: "ingest_files env cfg lg fs st1 = (st', Inr ())"
    and inv': "text_walk cfg m st'"
    and calls': "calls (milvus (wld st'))
               = calls (milvus (wld st1))
                 @ replicate ((length (txt_vector st1) + length (filter (eligible_text env m) fs))
                               div BATCH_SIZE) (Insert (TEXT_COLL cfg) BATCH_SIZE)"
    and len': "length (txt_vector st')
               = (length (txt_vector st1) + length (filter (eligible_text env m) fs)) mod BATCH_SIZE"
    and paths': "text_paths cfg st'
               = text_paths cfg st1 @ map str_path (filter (eligible_text env m) fs)"
    by blast
  have k: "length (txt_vector st) < BATCH_SIZE" using Cons.prems(1) by (simp add: text_walk_def)
  have a: "ingest_files env cfg lg (f # fs) st = (st', Inr ())" using step run by simp
  have b: "calls (milvus (wld st'))
               = calls (milvus (wld st))
                 @ replicate ((length (txt_vector st) + length (filter (eligible_text env m) (f # fs)))
                               div BATCH_SIZE) (Insert (TEXT_COLL cfg) BATCH_SIZE)"
  proof (cases "eligible_text env m f")
    case True
    then show ?thesis
      using calls' calls1 len1
            batch_arith(1) [OF k, of "Insert (TEXT_COLL cfg) BATCH_SIZE"
                                     "length (filter (eligible_text env m) fs)"]
      by simp
  next
    case False
    then show ?thesis using calls' calls1 len1 by simp
  qed
  have c: "length (txt_vector st')
               = (length (txt_vector st) + length (filter (eligible_text env m) (f # fs))) mod BATCH_SIZE"
  proof (cases "eligible_text env m f")
    case True
    then show ?thesis
      using len' len1 batch_arith(2) [OF k, of "length (filter (eligible_text env m) fs)"] by simp
  next
    case False
    then show ?thesis using len' len1 by simp
  qed
  have d: "text_paths cfg st'
               = text_paths cfg st @ map str_path (filter (eligible_text env m) (f # fs))"
    using paths' paths1 by simp
  from a inv' b c d show ?case by blast
qed

lemma drain_text_files:
  assumes inv: "text_walk cfg m st"
      and ni: "\<forall>p\<in>set files. \<not> image_suffixed p"
      and ok: "lg \<noteq> None \<or> (\<forall>p\<in>set files. text_suffixed p \<longrightarrow> eligible_text env m p)"
  shows "\<exists>st'. walk_and_drain env cfg lg files st = (st', Inr ())
           \<and> calls (milvus (wld st'))
               = calls (milvus (wld st))
                 @ replicate ((length (txt_vector st) + length (filter (eligible_text env m) files))
                               div BATCH_SIZE) (Insert (TEXT_COLL cfg) BATCH_SIZE)
                 @ (if (length (txt_vector st) + length (filter (eligible_text env m) files))
                         mod BATCH_SIZE = 0 then []
                    else [Insert (TEXT_COLL cfg)
                            ((length (txt_vector st) + length (filter (eligible_text env m) files))
                               mod BATCH_SIZE)])
           \<and> map path (rows_of (wld st') (TEXT_COLL cfg))
               = text_paths cfg st @ map str_path (filter (eligible_text env m) files)"
  (is "\<exists>st'. ?Q st'")
proof -
  from walk_text_files [OF inv ni ok] obtain st1 where
    run: "ingest_files env cfg lg files st = (st1, Inr ())"
    and inv1: "text_walk cfg m st1"
    and calls1: "calls (milvus (wld st1))
               = calls (milvus (wld st))
                 @ replicate ((length (txt_vector st) + length (filter (eligible_text env m) files))
                               div BATCH_SIZE) (Insert (TEXT_COLL cfg) BATCH_SIZE)"
    and len1: "length (txt_vector st1)
               = (length (txt_vector st) + length (filter (eligible_text env m) files)) mod BATCH_SIZE"
    and paths1: "text_paths cfg st1
               = text_paths cfg st @ map str_path (filter (eligible_text env m) files)"
    by blast
  have fi: "flush_img env cfg st1 = (st1, Inr ())"
    using inv1 by (simp add: flush_img_def text_walk_def)
  show ?thesis
  proof (cases "txt_vector st1 = []")
    case True
    have ft: "flush_txt env cfg st1 = (st1, Inr ())"
      using True by (simp add: flush_txt_def)
    have wd: "walk_and_drain env cfg lg files st = (st1, Inr ())"
      using run fi ft by (simp add: walk_and_drain_def and_then_def)
    have tp: "txt_path st1 = []" using inv1 True by (simp add: text_walk_def)
    have concl: "?Q st1"
      using wd calls1 len1 paths1 True tp by (simp add: text_paths_def)
    show ?thesis by (rule exI [of _ st1]) (rule concl)
  next
    case False
    from inv1 obtain c where c: "collections (milvus (wld st1)) (TEXT_COLL cfg) = Some c"
      by (auto simp: text_walk_def has_collection_def)
    let ?rows = "map (\<lambda>(v, p, c). \<lparr> vector = v, path = p, modality = ''text'',
                                       content = c, metadata = get_all_metadata env p \<rparr>)
                   (zip (txt_vector st1) (zip (txt_path st1) (txt_content st1)))"
    let ?s2 = "st1\<lparr>wld := (wld st1)\<lparr>milvus := (milvus (wld st1))
                    \<lparr>calls := calls (milvus (wld st1))
                               @ [Insert (TEXT_COLL cfg)
                                    (length (zip (txt_vector st1) (zip (txt_path st1) (txt_content st1))))],
                     collections := (collections (milvus (wld st1)))(TEXT_COLL cfg \<mapsto>
                        c\<lparr>entities := entities c @ ?rows\<rparr>)\<rparr>\<rparr>,
               txt_vector := [], txt_path := [], txt_content := []\<rparr>"
    have ft: "flush_txt env cfg st1 = (?s2, Inr ())"
      using flush_txt_present [OF c False, of env] by simp
    have wd: "walk_and_drain env cfg lg files st = (?s2, Inr ())"
      using run fi ft by (simp add: walk_and_drain_def and_then_def)
    have lens: "length (txt_path st1) = length (txt_vector st1)"
               "length (txt_content st1) = length (txt_vector st1)"
      using inv1 by (simp_all add: text_walk_def)
    have mp: "map path ?rows = txt_path st1"
      using lens by (rule map_path_rows)
    have nz: "length (txt_vector st1) \<noteq> 0" using False by simp
    have calls2: "calls (milvus (wld ?s2))
                 = calls (milvus (wld st1)) @ [Insert (TEXT_COLL cfg) (length (txt_vector st1))]"
      using lens by simp
    have rows2: "map path (rows_of (wld ?s2) (TEXT_COLL cfg)) = text_paths cfg st1"
      using c mp by (simp add: rows_of_def text_paths_def)
    have concl: "?Q ?s2"
      using wd calls2 calls1 rows2 paths1 nz len1 by simp
    show ?thesis by (rule exI [of _ ?s2]) (rule concl)
  qed
qed

lemma commit_and_report_present:
  assumes "has_collection (milvus w) (IMAGE_COLL cfg)"
      and "has_collection (milvus w) (TEXT_COLL cfg)"
  shows "milvus (fst (commit_and_report env cfg lg w))
           = (milvus w)\<lparr>calls := calls (milvus w) @ [Flush (IMAGE_COLL cfg), Flush (TEXT_COLL cfg)]\<rparr>
       \<and> (lg \<noteq> None \<longrightarrow> snd (commit_and_report env cfg lg w) = Inr ())"
  using assms
  by (auto simp: commit_and_report_def and_then_def on_store_def client_flush_def Let_def
                 has_collection_def row_count_def logger_call_def
           split: option.splits)

lemma create_collection_absent:
  assumes "collections (milvus w) name = None"
  shows "\<exists>w'. create_collection env name dim lg w = (w', Inr ())
           \<and> text_model w' = text_model w
           \<and> calls (milvus w') = calls (milvus w) @ [CreateCollection name dim]
           \<and> collections (milvus w')
               = (collections (milvus w))(name \<mapsto> \<lparr> dimension = dim, entities = [] \<rparr>)"
  using assms
  by (cases lg)
     (auto simp: create_collection_def and_then_def on_store_def client_create_collection_def
                 Let_def logger_call_def)

lemma get_embedding_dimensions_store:
  "get_embedding_dimensions env cfg w = (w', r) \<Longrightarrow> milvus w' = milvus w"
  by (auto simp: get_embedding_dimensions_def get_text_model_def get_image_model_def
           split: prod.splits sum.splits option.splits)

lemma coll_names_differ: "IMAGE_COLL cfg \<noteq> TEXT_COLL cfg"
  by (simp add: IMAGE_COLL_def TEXT_COLL_def)

lemma get_text_model_clients:
  "get_text_model env cfg (w\<lparr>clients_built := x\<rparr>)
     = (case get_text_model env cfg w of (w', r) \<Rightarrow> (w'\<lparr>clients_built := x\<rparr>, r))"
  by (simp add: get_text_model_def split: sum.splits option.splits)

lemma get_image_model_clients:
  "get_image_model env cfg (w\<lparr>clients_built := x\<rparr>)
     = (case get_image_model env cfg w of (w', r) \<Rightarrow> (w'\<lparr>clients_built := x\<rparr>, r))"
  by (simp add: get_image_model_def split: sum.splits option.splits)

lemma get_embedding_dimensions_clients:
  "get_embedding_dimensions env cfg (w\<lparr>clients_built := x\<rparr>)
     = (case get_embedding_dimensions env cfg w of (w', r) \<Rightarrow> (w'\<lparr>clients_built := x\<rparr>, r))"
proof -
  obtain w1 r1 where a: "get_text_model env cfg w = (w1, r1)"
    by (cases "get_text_model env cfg w")
  obtain w2 r2 where b: "get_image_model env cfg w1 = (w2, r2)"
    by (cases "get_image_model env cfg w1")
  show ?thesis
    using a b
    by (simp add: get_embedding_dimensions_def get_text_model_clients get_image_model_clients
             split: sum.splits prod.splits)
qed

lemma preprocess_fresh_run:
  assumes reach: "MilvusClient_init env (ingestion_client cfg) = Inr ()"
      and fresh_i: "collections (milvus w) (IMAGE_COLL cfg) = None"
      and fresh_t: "collections (milvus w) (TEXT_COLL cfg) = None"
      and dims: "get_embedding_dimensions env cfg w = (w1, Inr (dt, di))"
      and model: "text_model w1 = Some m"
      and tree: "files = filter (is_file env) (rglob env (get_path_attached_artifact_dir cfg))"
      and no_img: "\<forall>p\<in>set files. \<not> image_suffixed p"
      and logs: "lg \<noteq> None \<or> (\<forall>p\<in>set files. text_suffixed p \<longrightarrow> eligible_text env m p)"
  shows "calls (milvus (fst (preprocess_data_to_milvus env cfg lg w)))
           = calls (milvus w)
             @ [CreateCollection (IMAGE_COLL cfg) di, CreateCollection (TEXT_COLL cfg) dt]
             @ replicate (length (filter (eligible_text env m) files) div BATCH_SIZE)
                 (Insert (TEXT_COLL cfg) BATCH_SIZE)
             @ (if length (filter (eligible_text env m) files) mod BATCH_SIZE = 0 then []
                else [Insert (TEXT_COLL cfg)
                        (length (filter (eligible_text env m) files) mod BATCH_SIZE)])
             @ [Flush (IMAGE_COLL cfg), Flush (TEXT_COLL cfg)]
       \<and> map path (rows_of (fst (preprocess_data_to_milvus env cfg lg w)) (TEXT_COLL cfg))
           = map str_path (filter (eligible_text env m) files)
       \<and> (lg \<noteq> None \<longrightarrow> snd (preprocess_data_to_milvus env cfg lg w) = Inr ())"
proof -
  let ?w0 = "w\<lparr>clients_built := clients_built w @ [ingestion_client cfg]\<rparr>"
  let ?w1 = "w1\<lparr>clients_built := clients_built w @ [ingestion_client cfg]\<rparr>"
  have nb: "\<not> (has_collection (milvus ?w0) (IMAGE_COLL cfg) \<and> has_collection (milvus ?w0) (TEXT_COLL cfg))"
    using fresh_t by (simp add: has_collection_def)
  have pre: "preprocess_data_to_milvus env cfg lg w = embed_and_upload env cfg lg ?w0"
    using reach fresh_t
    by (simp add: preprocess_data_to_milvus_def ingestion_client_def Let_def has_collection_def)
  have d0: "get_embedding_dimensions env cfg ?w0 = (?w1, Inr (dt, di))"
    using dims by (simp add: get_embedding_dimensions_clients)
  have m1: "milvus ?w1 = milvus w"
    using get_embedding_dimensions_store [OF dims] by simp
  have i1: "collections (milvus ?w1) (IMAGE_COLL cfg) = None" using m1 fresh_i by simp
  from create_collection_absent [OF i1, of env di lg] obtain w2 where
    c2: "create_collection env (IMAGE_COLL cfg) di lg ?w1 = (w2, Inr ())"
    and tm2: "text_model w2 = text_model ?w1"
    and calls2: "calls (milvus w2) = calls (milvus ?w1) @ [CreateCollection (IMAGE_COLL cfg) di]"
    and colls2: "collections (milvus w2)
               = (collections (milvus ?w1))(IMAGE_COLL cfg \<mapsto> \<lparr> dimension = di, entities = [] \<rparr>)"
    by blast
  have t2: "collections (milvus w2) (TEXT_COLL cfg) = None"
    using colls2 m1 fresh_t coll_names_differ [of cfg] by simp
  from create_collection_absent [OF t2, of env dt lg] obtain w3 where
    c3: "create_collection env (TEXT_COLL cfg) dt lg w2 = (w3, Inr ())"
    and tm3: "text_model w3 = text_model w2"
    and calls3: "calls (milvus w3) = calls (milvus w2) @ [CreateCollection (TEXT_COLL cfg) dt]"
    and colls3: "collections (milvus w3)
               = (collections (milvus w2))(TEXT_COLL cfg \<mapsto> \<lparr> dimension = dt, entities = [] \<rparr>)"
    by blast
  let ?st0 = "\<lparr> wld = w3, img_vector = [], img_path = [],
                txt_vector = [], txt_path = [], txt_content = [] \<rparr>"
  have hi3: "has_collection (milvus w3) (IMAGE_COLL cfg)"
    using colls3 colls2 by (simp add: has_collection_def)
  have ht3: "has_collection (milvus w3) (TEXT_COLL cfg)"
    using colls3 by (simp add: has_collection_def)
  have inv0: "text_walk cfg m ?st0"
    using tm3 tm2 model ht3 by (simp add: text_walk_def BATCH_SIZE_def)
  have tp0: "text_paths cfg ?st0 = []"
    using colls3 by (simp add: text_paths_def rows_of_def)
  have no_img': "\<forall>p\<in>set files. \<not> image_suffixed p" by (rule no_img)
  from drain_text_files [OF inv0 no_img' logs] obtain st' where
    d: "walk_and_drain env cfg lg files ?st0 = (st', Inr ())
           \<and> calls (milvus (wld st'))
               = calls (milvus (wld ?st0))
                 @ replicate ((length (txt_vector ?st0) + length (filter (eligible_text env m) files))
                               div BATCH_SIZE) (Insert (TEXT_COLL cfg) BATCH_SIZE)
                 @ (if (length (txt_vector ?st0) + length (filter (eligible_text env m) files))
                         mod BATCH_SIZE = 0 then []
                    else [Insert (TEXT_COLL cfg)
                            ((length (txt_vector ?st0) + length (filter (eligible_text env m) files))
                               mod BATCH_SIZE)])
           \<and> map path (rows_of (wld st') (TEXT_COLL cfg))
               = text_paths cfg ?st0 @ map str_path (filter (eligible_text env m) files)" ..
  have wd: "walk_and_drain env cfg lg files ?st0 = (st', Inr ())"
    using d by (rule conjunct1)
  have callsd: "calls (milvus (wld st'))
               = calls (milvus w3)
                 @ replicate (length (filter (eligible_text env m) files) div BATCH_SIZE)
                     (Insert (TEXT_COLL cfg) BATCH_SIZE)
                 @ (if length (filter (eligible_text env m) files) mod BATCH_SIZE = 0 then []
                    else [Insert (TEXT_COLL cfg)
                            (length (filter (eligible_text env m) files) mod BATCH_SIZE)])"
    using d [THEN conjunct2, THEN conjunct1] by simp
  have rowsd: "map path (rows_of (wld st') (TEXT_COLL cfg))
               = text_paths cfg ?st0 @ map str_path (filter (eligible_text env m) files)"
    using d by (rule conjunct2 [THEN conjunct2])
  have kd: "keeps w3 (wld st')" using keeps_walk_and_drain [OF wd] by simp
  have hi: "has_collection (milvus (wld st')) (IMAGE_COLL cfg)" using keeps_has [OF kd hi3] .
  have ht: "has_collection (milvus (wld st')) (TEXT_COLL cfg)" using keeps_has [OF kd ht3] .
  have run: "embed_and_upload env cfg lg ?w0 = commit_and_report env cfg lg (wld st')"
    using d0 c2 c3 wd tree by (simp add: embed_and_upload_def and_then_def)
  note cr = commit_and_report_present [OF hi ht, of env lg]
  have fin: "milvus (fst (preprocess_data_to_milvus env cfg lg w))
           = (milvus (wld st'))\<lparr>calls := calls (milvus (wld st'))
                                   @ [Flush (IMAGE_COLL cfg), Flush (TEXT_COLL cfg)]\<rparr>"
    using pre run cr by simp
  have a: "calls (milvus (fst (preprocess_data_to_milvus env cfg lg w)))
           = calls (milvus w)
             @ [CreateCollection (IMAGE_COLL cfg) di, CreateCollection (TEXT_COLL cfg) dt]
             @ replicate (length (filter (eligible_text env m) files) div BATCH_SIZE)
                 (Insert (TEXT_COLL cfg) BATCH_SIZE)
             @ (if length (filter (eligible_text env m) files) mod BATCH_SIZE = 0 then []
                else [Insert (TEXT_COLL cfg)
                        (length (filter (eligible_text env m) files) mod BATCH_SIZE)])
             @ [Flush (IMAGE_COLL cfg), Flush (TEXT_COLL cfg)]"
    using fin callsd calls3 calls2 m1 by simp
  have b: "map path (rows_of (fst (preprocess_data_to_milvus env cfg lg w)) (TEXT_COLL cfg))
           = map str_path (filter (eligible_text env m) files)"
    using fin rowsd tp0 by (simp add: rows_of_def)
  have c: "lg \<noteq> None \<longrightarrow> snd (preprocess_data_to_milvus env cfg lg w) = Inr ()"
    using pre run cr by simp
  from a b c show ?thesis by blast
qed

end
